theory Spec2Isabelle
  imports Main "HOL-Library.AList"
begin

section \<open>JavaScript data\<close>

text \<open>
  Values that the adapter only reads (engine events, parsed manifests, JSON documents)
  are modelled by value. Numbers are restricted to integers: the adapter only tests
  numbers for truthiness or hands them on unchanged.
\<close>

datatype jsval =
    JUndefined
  | JNull
  | JBool bool
  | JNum int
  | JStr string
  | JArr "jsval list"
  | JObj "(string \<times> jsval) list"

text \<open>Exceptions a piece of code can throw.\<close>

datatype js_error = TypeError | SyntaxError | Error string

text \<open>ToBoolean: \<open>undefined\<close>, \<open>null\<close>, \<open>false\<close>, \<open>0\<close> and \<open>''\<close> are falsy.\<close>

fun truthy :: "jsval \<Rightarrow> bool" where
  "truthy JUndefined = False"
| "truthy JNull = False"
| "truthy (JBool b) = b"
| "truthy (JNum n) = (n \<noteq> 0)"
| "truthy (JStr s) = (s \<noteq> [])"
| "truthy (JArr xs) = True"
| "truthy (JObj fs) = True"

text \<open>
  Reading a data property \<open>v.k\<close>: a TypeError on \<open>undefined\<close> and \<open>null\<close>, the stored
  value on an object, \<open>undefined\<close> where the property is missing. (The property names
  read this way, \<open>id\<close>, \<open>message\<close> and \<open>duration\<close>, exist on no primitive or array.)
\<close>

fun get_prop :: "jsval \<Rightarrow> string \<Rightarrow> js_error + jsval" where
  "get_prop JUndefined k = Inl TypeError"
| "get_prop JNull k = Inl TypeError"
| "get_prop (JObj fs) k = Inr (case map_of fs k of None \<Rightarrow> JUndefined | Some v \<Rightarrow> v)"
| "get_prop v k = Inr JUndefined"

subsection \<open>Strings\<close>

fun starts_with :: "string \<Rightarrow> string \<Rightarrow> bool" where
  "starts_with s [] = True"
| "starts_with [] (p # ps) = False"
| "starts_with (c # cs) (p # ps) = (c = p \<and> starts_with cs ps)"

text \<open>\<open>contains_str s sub\<close>: \<open>sub\<close> occurs in \<open>s\<close> as a contiguous substring.\<close>

fun contains_str :: "string \<Rightarrow> string \<Rightarrow> bool" where
  "contains_str [] sub = (sub = [])"
| "contains_str (c # cs) sub = (starts_with (c # cs) sub \<or> contains_str cs sub)"

text \<open>
  \<open>v.match('LITERAL')\<close> as a condition, for a pattern without regular-expression
  metacharacters: a substring search on a string; any other value has no callable
  \<open>match\<close>, so the call throws.
\<close>

fun str_match :: "jsval \<Rightarrow> string \<Rightarrow> js_error + bool" where
  "str_match (JStr s) pat = Inr (contains_str s pat)"
| "str_match v pat = Inl TypeError"

section \<open>Error translation: \<open>retriggerError_\<close>\<close>

text \<open>The engine's ERROR event: \<open>event.error\<close> and its payload \<open>event.event\<close>.\<close>

record error_event =
  error :: jsval
  event :: jsval

text \<open>The argument of \<open>player.error(...)\<close>.\<close>

record media_error =
  code :: nat
  message :: jsval

text \<open>
  What the listener acts on: the calls of \<open>player.error\<close> (oldest first) and the delays
  of the pending \<open>setTimeout\<close> callbacks that reset the engine.
\<close>

record host =
  player_errors :: "media_error list"
  reset_timeouts :: "nat list"

definition unsupported_feature :: string where
  "unsupported_feature =
     ''The media cannot be played because it requires a feature that your browser does not support.''"

definition unsupported_encryption :: string where
  "unsupported_encryption =
     ''The media cannot be played because it requires encryption features that your browser does not support.''"

definition too_many_download_errors :: string where
  "too_many_download_errors =
     ''The media playback was aborted because too many consecutive download errors occurred.''"

definition manifest_error_ids :: "string list" where
  "manifest_error_ids =
     [''createParser'', ''codec'', ''nostreams'', ''nostreamscomposed'', ''parse'',
      ''multiplexedrep'']"

text \<open>
  The second branch's condition: \<open>event.error === 'manifestError' && (event.event.id ===
  'createParser' || ...)\<close>. The payload's \<open>id\<close> is read only when the first conjunct
  holds, and the read throws on an absent payload.
\<close>

definition is_forwarded_manifest_error :: "error_event \<Rightarrow> js_error + bool" where
  "is_forwarded_manifest_error ev =
     (if error ev = JStr ''manifestError''
      then (case get_prop (event ev) ''id'' of
              Inl e \<Rightarrow> Inl e
            | Inr i \<Rightarrow> Inr (i \<in> set (map JStr manifest_error_ids)))
      else Inr False)"

text \<open>
  The chain of \<open>match\<close> tests of the \<open>mediasource\<close> branch, first match first; the last
  two branches (\<open>UNKNOWN\<close> and the buffer allocation error) both give code 4.
\<close>

fun mediasource_code_from :: "jsval \<Rightarrow> (string \<times> nat) list \<Rightarrow> js_error + nat" where
  "mediasource_code_from msg [] = Inr 4"
| "mediasource_code_from msg ((pat, c) # rest) =
     (case str_match msg pat of
        Inl e \<Rightarrow> Inl e
      | Inr True \<Rightarrow> Inr c
      | Inr False \<Rightarrow> mediasource_code_from msg rest)"

definition mediasource_code :: "jsval \<Rightarrow> js_error + nat" where
  "mediasource_code msg =
     mediasource_code_from msg
       [(''MEDIA_ERR_ABORTED'', 1), (''MEDIA_ERR_NETWORK'', 2), (''MEDIA_ERR_DECODE'', 3),
        (''MEDIA_ERR_SRC_NOT_SUPPORTED'', 4), (''MEDIA_ERR_ENCRYPTED'', 5), (''UNKNOWN'', 4)]"

text \<open>
  The branch the listener takes: the error it hands to \<open>player.error\<close>, \<open>None\<close> for an
  engine error it ignores, or the exception thrown while the conditions are evaluated.
\<close>

definition translate :: "error_event \<Rightarrow> js_error + media_error option" where
  "translate ev =
     (if error ev = JStr ''capability'' \<and> event ev = JStr ''mediasource''
      then Inr (Some \<lparr>code = 4, message = JStr unsupported_feature\<rparr>)
      else case is_forwarded_manifest_error ev of
        Inl e \<Rightarrow> Inl e
      | Inr True \<Rightarrow>
          (case get_prop (event ev) ''message'' of
             Inl e \<Rightarrow> Inl e
           | Inr m \<Rightarrow> Inr (Some \<lparr>code = 4, message = m\<rparr>))
      | Inr False \<Rightarrow>
          if error ev = JStr ''mediasource''
          then (case mediasource_code (event ev) of
                  Inl e \<Rightarrow> Inl e
                | Inr c \<Rightarrow> Inr (Some \<lparr>code = c, message = event ev\<rparr>))
          else if error ev = JStr ''capability'' \<and> event ev = JStr ''encryptedmedia''
          then Inr (Some \<lparr>code = 5, message = JStr unsupported_encryption\<rparr>)
          else if error ev = JStr ''key_session''
          then Inr (Some \<lparr>code = 5, message = event ev\<rparr>)
          else if error ev = JStr ''download''
          then Inr (Some \<lparr>code = 2, message = JStr too_many_download_errors\<rparr>)
          else if error ev = JStr ''mssError''
          then Inr (Some \<lparr>code = 3, message = event ev\<rparr>)
          else Inr None)"

text \<open>
  The listener: an ignored error returns before the timer is set; a surfaced one is
  reported to the player and followed by \<open>setTimeout(reset, 10)\<close>.
\<close>

definition surface :: "media_error \<Rightarrow> host \<Rightarrow> host" where
  "surface err h =
     h\<lparr>player_errors := player_errors h @ [err], reset_timeouts := reset_timeouts h @ [10]\<rparr>"

definition retriggerError :: "error_event \<Rightarrow> host \<Rightarrow> js_error + host" where
  "retriggerError ev h =
     (case translate ev of
        Inl e \<Rightarrow> Inl e
      | Inr None \<Rightarrow> Inr h
      | Inr (Some err) \<Rightarrow> Inr (surface err h))"

section \<open>Numbers as text\<close>

definition digit_char :: "nat \<Rightarrow> char" where
  "digit_char d = ''0123456789'' ! d"

text \<open>The decimal numeral of a natural number, as string concatenation prints it.\<close>

fun show_nat :: "nat \<Rightarrow> string" where
  "show_nat n = (if n < 10 then [digit_char n] else show_nat (n div 10) @ [digit_char (n mod 10)])"

declare show_nat.simps [simp del]

text \<open>
  The result of \<open>parseInt\<close> as concatenation prints it: \<open>None\<close> is \<open>NaN\<close>, \<open>Some (neg, n)\<close>
  is the magnitude \<open>n\<close> with its sign (\<open>-0\<close> prints as \<open>0\<close>).
\<close>

fun show_parsed :: "(bool \<times> nat) option \<Rightarrow> string" where
  "show_parsed None = ''NaN''"
| "show_parsed (Some (neg, n)) = (if neg \<and> n \<noteq> 0 then ''-'' @ show_nat n else show_nat n)"

text \<open>
  A number with two decimal places, counted in hundredths, such as an opacity (\<open>0.5\<close>
  is \<open>Hundredths 50\<close>) or the font size of the caption settings; \<open>decimal_to_string\<close>
  is the text JavaScript prints for it (\<open>1\<close>, \<open>0.5\<close>, \<open>0.25\<close>).
\<close>

datatype decimal = Hundredths nat

fun decimal_to_string :: "decimal \<Rightarrow> string" where
  "decimal_to_string (Hundredths n) =
     show_nat (n div 100) @
     (if n mod 100 = 0 then []
      else if n mod 10 = 0 then ''.'' @ [digit_char (n mod 100 div 10)]
      else ''.'' @ [digit_char (n mod 100 div 10), digit_char (n mod 10)])"


subsection \<open>\<open>parseInt(s, 16)\<close>\<close>

definition hex_value :: "char \<Rightarrow> nat option" where
  "hex_value c =
     (let n = (of_char c :: nat) in
      if 48 \<le> n \<and> n \<le> 57 then Some (n - 48)
      else if 97 \<le> n \<and> n \<le> 102 then Some (n - 87)
      else if 65 \<le> n \<and> n \<le> 70 then Some (n - 55)
      else None)"

definition is_hex :: "char \<Rightarrow> bool" where
  "is_hex c = (hex_value c \<noteq> None)"

definition hex_digit :: "char \<Rightarrow> nat" where
  "hex_digit c = (case hex_value c of Some v \<Rightarrow> v | None \<Rightarrow> 0)"

text \<open>White space that \<open>parseInt\<close> skips, among the characters below 256.\<close>

definition is_js_space :: "char \<Rightarrow> bool" where
  "is_js_space c = ((of_char c :: nat) \<in> {9, 10, 11, 12, 13, 32, 160})"

definition strip_sign :: "string \<Rightarrow> bool \<times> string" where
  "strip_sign s =
     (case s of
        [] \<Rightarrow> (False, [])
      | c # cs \<Rightarrow>
          if c = CHR ''-'' then (True, cs)
          else if c = CHR ''+'' then (False, cs)
          else (False, s))"

definition strip_0x :: "string \<Rightarrow> string" where
  "strip_0x s = (if starts_with s ''0x'' \<or> starts_with s ''0X'' then drop 2 s else s)"

text \<open>
  \<open>parseInt(s, 16)\<close>: skip leading white space, take the sign, drop a \<open>0x\<close> prefix, read
  the longest run of hexadecimal digits; no digit at all gives \<open>NaN\<close>.
\<close>

definition parseInt16 :: "string \<Rightarrow> (bool \<times> nat) option" where
  "parseInt16 s =
     (let (neg, s1) = strip_sign (dropWhile is_js_space s);
          digits = takeWhile is_hex (strip_0x s1)
      in if digits = [] then None
         else Some (neg, foldl (\<lambda>a c. 16 * a + hex_digit c) 0 digits))"

section \<open>Caption colours: \<open>constructColor\<close>\<close>

text \<open>\<open>s.slice(a, b)\<close> for indices \<open>0 \<le> a \<le> b\<close>.\<close>

definition slice :: "nat \<Rightarrow> nat \<Rightarrow> string \<Rightarrow> string" where
  "slice a b s = take (b - a) (drop a s)"

definition invalid_color_message :: "string \<Rightarrow> string" where
  "invalid_color_message color =
     ''Invalid color code provided, '' @ color @ ''; must be formatted as e.g. #f0e or #f604e2.''"

definition constructColor :: "string \<Rightarrow> decimal \<Rightarrow> js_error + string" where
  "constructColor color opacity =
     (let hex =
        (if length color = 4
         then Some [color ! 1, color ! 1, color ! 2, color ! 2, color ! 3, color ! 3]
         else if length color = 7 then Some (drop 1 color)
         else None)
      in case hex of
           None \<Rightarrow> Inl (Error (invalid_color_message color))
         | Some hex \<Rightarrow>
             Inr (''rgba('' @ show_parsed (parseInt16 (slice 0 2 hex)) @ '','' @
                  show_parsed (parseInt16 (slice 2 4 hex)) @ '','' @
                  show_parsed (parseInt16 (slice 4 6 hex)) @ '','' @
                  decimal_to_string opacity @ '')''))"

text \<open>
  The same function called with a string for the opacity, as the caption settings give
  it (\<open>'0.5'\<close>): concatenation appends a string as it is.
\<close>

definition constructColor_text :: "string \<Rightarrow> string \<Rightarrow> js_error + string" where
  "constructColor_text color opacity =
     (let hex =
        (if length color = 4
         then Some [color ! 1, color ! 1, color ! 2, color ! 2, color ! 3, color ! 3]
         else if length color = 7 then Some (drop 1 color)
         else None)
      in case hex of
           None \<Rightarrow> Inl (Error (invalid_color_message color))
         | Some hex \<Rightarrow>
             Inr (''rgba('' @ show_parsed (parseInt16 (slice 0 2 hex)) @ '','' @
                  show_parsed (parseInt16 (slice 2 4 hex)) @ '','' @
                  show_parsed (parseInt16 (slice 4 6 hex)) @ '','' @
                  opacity @ '')''))"

section \<open>Audio track bridge: \<open>audioTracksChangeHandler\<close>\<close>

text \<open>An engine audio track (its \<open>index\<close>) and a host audio track (its \<open>id\<close>, \<open>enabled\<close>).\<close>

record dash_track =
  index :: nat

record audio_track =
  track_id :: string
  enabled :: bool

text \<open>
  The engine as the handler meets it: its active audio track, which the handler never
  reads, and the arguments of the \<open>setCurrentTrack\<close> calls so far (\<open>None\<close> is
  \<open>undefined\<close>).
\<close>

record audio_engine =
  current_track :: "dash_track option"
  setCurrentTrack_calls :: "dash_track option list"

definition generateIdFromTrackIndex :: "nat \<Rightarrow> string" where
  "generateIdFromTrackIndex i = ''dash-audio-'' @ show_nat i"

definition findDashAudioTrack :: "dash_track list \<Rightarrow> audio_track \<Rightarrow> dash_track option" where
  "findDashAudioTrack subDashAudioTracks videojsAudioTrack =
     List.find (\<lambda>t. generateIdFromTrackIndex (index t) = track_id videojsAudioTrack)
       subDashAudioTracks"

definition setCurrentTrack :: "dash_track option \<Rightarrow> audio_engine \<Rightarrow> audio_engine" where
  "setCurrentTrack t e = e\<lparr>setCurrentTrack_calls := setCurrentTrack_calls e @ [t]\<rparr>"

text \<open>The loop over the host's audio tracks; \<open>continue\<close> goes on to the next track.\<close>

fun audioTracksChangeHandler ::
  "dash_track list \<Rightarrow> audio_track list \<Rightarrow> audio_engine \<Rightarrow> audio_engine" where
  "audioTracksChangeHandler dashAudioTracks [] e = e"
| "audioTracksChangeHandler dashAudioTracks (track # rest) e =
     (if enabled track
      then audioTracksChangeHandler dashAudioTracks rest
             (setCurrentTrack (findDashAudioTrack dashAudioTracks track) e)
      else audioTracksChangeHandler dashAudioTracks rest e)"

section \<open>Objects on the heap\<close>

text \<open>
  Objects that can be mutated through a reference (the source, its key-system options,
  whatever a hook makes) live in a heap: a list of cells, the address of a cell being
  its position. A new object is appended, so an address, once given, stays valid.
\<close>

type_synonym addr = nat

datatype hval =
    HUndefined
  | HNull
  | HBool bool
  | HNum int
  | HStr string
  | HRef addr

datatype hobj =
    HObj "(string \<times> hval) list"
  | HArr "hval list"

type_synonym heap = "hobj list"

definition cell :: "heap \<Rightarrow> addr \<Rightarrow> hobj option" where
  "cell h a = (if a < length h then Some (h ! a) else None)"

definition alloc :: "hobj \<Rightarrow> heap \<Rightarrow> addr \<times> heap" where
  "alloc ob h = (length h, h @ [ob])"

fun truthy_h :: "hval \<Rightarrow> bool" where
  "truthy_h HUndefined = False"
| "truthy_h HNull = False"
| "truthy_h (HBool b) = b"
| "truthy_h (HNum n) = (n \<noteq> 0)"
| "truthy_h (HStr s) = (s \<noteq> [])"
| "truthy_h (HRef a) = True"

text \<open>The own properties of the plain object a value refers to (none for any other value).\<close>

definition own_fields :: "heap \<Rightarrow> hval \<Rightarrow> (string \<times> hval) list" where
  "own_fields h v =
     (case v of
        HRef a \<Rightarrow> (case cell h a of Some (HObj fs) \<Rightarrow> fs | _ \<Rightarrow> [])
      | _ \<Rightarrow> [])"

text \<open>
  Reading \<open>v.k\<close> for one of the names the adapter reads (\<open>src\<close>, \<open>type\<close>,
  \<open>keySystemOptions\<close>, \<open>name\<close>, \<open>options\<close>, \<open>licenseUrl\<close>): a TypeError on \<open>undefined\<close>
  and \<open>null\<close>, \<open>undefined\<close> where the property is missing.
\<close>

definition get_field :: "heap \<Rightarrow> hval \<Rightarrow> string \<Rightarrow> js_error + hval" where
  "get_field h v k =
     (case v of
        HUndefined \<Rightarrow> Inl TypeError
      | HNull \<Rightarrow> Inl TypeError
      | _ \<Rightarrow> Inr (case map_of (own_fields h v) k of None \<Rightarrow> HUndefined | Some x \<Rightarrow> x))"

text \<open>\<open>o.k = v\<close> and \<open>delete o.k\<close> on the plain object at an address.\<close>

definition set_field :: "addr \<Rightarrow> string \<Rightarrow> hval \<Rightarrow> heap \<Rightarrow> heap" where
  "set_field a k v h =
     (case cell h a of Some (HObj fs) \<Rightarrow> h[a := HObj (AList.update k v fs)] | _ \<Rightarrow> h)"

definition delete_field :: "addr \<Rightarrow> string \<Rightarrow> heap \<Rightarrow> heap" where
  "delete_field a k h =
     (case cell h a of Some (HObj fs) \<Rightarrow> h[a := HObj (AList.delete k fs)] | _ \<Rightarrow> h)"

definition is_array :: "heap \<Rightarrow> hval \<Rightarrow> bool" where
  "is_array h v =
     (case v of
        HRef a \<Rightarrow> (case cell h a of Some (HArr xs) \<Rightarrow> True | _ \<Rightarrow> False)
      | _ \<Rightarrow> False)"

definition array_elems :: "heap \<Rightarrow> hval \<Rightarrow> hval list" where
  "array_elems h v =
     (case v of
        HRef a \<Rightarrow> (case cell h a of Some (HArr xs) \<Rightarrow> xs | _ \<Rightarrow> [])
      | _ \<Rightarrow> [])"

text \<open>
  ToString, as a property key \<open>o[v]\<close> and a regular expression's \<open>test(v)\<close> apply it.
  (An array prints its elements; the model prints every object as a plain object.)
\<close>

fun to_string :: "hval \<Rightarrow> string" where
  "to_string (HStr s) = s"
| "to_string HUndefined = ''undefined''"
| "to_string HNull = ''null''"
| "to_string (HBool b) = (if b then ''true'' else ''false'')"
| "to_string (HNum n) = (if n < 0 then ''-'' @ show_nat (nat (- n)) else show_nat (nat n))"
| "to_string (HRef a) = ''[object Object]''"

section \<open>Key-system options: \<open>buildDashJSProtData\<close>\<close>

text \<open>
  \<open>videojs.mergeOptions({}, x)\<close> belongs to video.js, not to this repository, and is a
  parameter of the model: a function from the heap and \<open>x\<close> to the cells it allocates,
  the last of them the object it returns. (It allocates and never writes to an object
  that exists.)
\<close>

type_synonym merge = "heap \<Rightarrow> hval \<Rightarrow> hobj list"

text \<open>
  What the adapter relies on: the object returned is a plain object with the keys of
  \<open>x\<close>, in the order of \<open>x\<close>, and with the value of \<open>x\<close> wherever that value is not
  itself an object (video.js copies nested plain objects).
\<close>

fun is_ref :: "hval \<Rightarrow> bool" where
  "is_ref (HRef a) = True"
| "is_ref v = False"

definition copy_of :: "heap \<Rightarrow> hval \<Rightarrow> (string \<times> hval) list \<Rightarrow> bool" where
  "copy_of h x fs =
     list_all2 (\<lambda>p q. fst q = fst p \<and> (is_ref (snd p) \<or> snd q = snd p)) (own_fields h x) fs"

definition copies :: "merge \<Rightarrow> bool" where
  "copies mo = (\<forall>h x. mo h x \<noteq> [] \<and> (\<exists>fs. last (mo h x) = HObj fs \<and> copy_of h x fs))"

text \<open>The simplest such function: a new object with the properties of \<open>x\<close> as they are.\<close>

definition shallow_merge :: merge where
  "shallow_merge h x = [HObj (own_fields h x)]"

definition mergeOptions :: "merge \<Rightarrow> hval \<Rightarrow> heap \<Rightarrow> addr \<times> heap" where
  "mergeOptions mo x h = (length h + length (mo h x) - 1, h @ mo h x)"

text \<open>
  The renaming step on the copy: \<open>if (options.licenseUrl) { options.serverURL =
  options.licenseUrl; delete options.licenseUrl; }\<close>.
\<close>

definition rename_licenseUrl :: "addr \<Rightarrow> heap \<Rightarrow> heap" where
  "rename_licenseUrl options h =
     (let licenseUrl =
        (case map_of (own_fields h (HRef options)) ''licenseUrl'' of
           None \<Rightarrow> HUndefined | Some v \<Rightarrow> v)
      in if truthy_h licenseUrl
         then delete_field options ''licenseUrl'' (set_field options ''serverURL'' licenseUrl h)
         else h)"

text \<open>
  The loop over the entries. It writes to \<open>output\<close> and to the copies only, all made
  by this call, so the array it indexes is the array it was given: the entries are
  read once, when the loop starts.
\<close>

fun protData_loop :: "merge \<Rightarrow> hval list \<Rightarrow> addr \<Rightarrow> heap \<Rightarrow> (js_error + unit) \<times> heap" where
  "protData_loop mo [] output h = (Inr (), h)"
| "protData_loop mo (keySystem # rest) output h =
     (case get_field h keySystem ''options'' of
        Inl e \<Rightarrow> (Inl e, h)
      | Inr opts \<Rightarrow>
          (case mergeOptions mo opts h of
             (options, h1) \<Rightarrow>
               (let h2 = rename_licenseUrl options h1 in
                case get_field h2 keySystem ''name'' of
                  Inl e \<Rightarrow> (Inl e, h2)
                | Inr name \<Rightarrow>
                    protData_loop mo rest output
                      (set_field output (to_string name) (HRef options) h2))))"

definition buildDashJSProtData :: "merge \<Rightarrow> hval \<Rightarrow> heap \<Rightarrow> (js_error + hval) \<times> heap" where
  "buildDashJSProtData mo keySystemOptions h =
     (case alloc (HObj []) h of
        (output, h0) \<Rightarrow>
          if \<not> truthy_h keySystemOptions \<or> \<not> is_array h0 keySystemOptions
          then (Inr HNull, h0)
          else (case protData_loop mo (array_elems h0 keySystemOptions) output h0 of
                  (Inl e, h') \<Rightarrow> (Inl e, h')
                | (Inr u, h') \<Rightarrow> (Inr (HRef output), h')))"

subsection \<open>Heaps and entries, as the properties of the key-system options speak of them\<close>

text \<open>
  A heap without dangling references: every reference held by a cell is the address of
  a cell.
\<close>

definition valid_in :: "nat \<Rightarrow> hval \<Rightarrow> bool" where
  "valid_in n v = (case v of HRef a \<Rightarrow> a < n | _ \<Rightarrow> True)"

definition refs_ok :: "nat \<Rightarrow> hobj \<Rightarrow> bool" where
  "refs_ok n ob =
     (case ob of
        HObj fs \<Rightarrow> list_all (\<lambda>p. valid_in n (snd p)) fs
      | HArr xs \<Rightarrow> list_all (valid_in n) xs)"

definition wf_heap :: "heap \<Rightarrow> bool" where
  "wf_heap h = list_all (refs_ok (length h)) h"

text \<open>The value of \<open>v.k\<close> where the read does not throw.\<close>

definition field_of :: "heap \<Rightarrow> hval \<Rightarrow> string \<Rightarrow> hval" where
  "field_of h v k = (case map_of (own_fields h v) k of None \<Rightarrow> HUndefined | Some x \<Rightarrow> x)"

text \<open>
  An entry of the list whose \<open>options\<close> and \<open>name\<close> can be read (any value but
  \<open>undefined\<close> and \<open>null\<close>), and the key its name gives in the result.
\<close>

definition entry_ok :: "hval \<Rightarrow> bool" where
  "entry_ok e = (e \<noteq> HUndefined \<and> e \<noteq> HNull)"

definition entry_key :: "heap \<Rightarrow> hval \<Rightarrow> string" where
  "entry_key h e = to_string (field_of h e ''name'')"

text \<open>The renaming step as a function of the properties of the copy.\<close>

definition renamed_fields :: "(string \<times> hval) list \<Rightarrow> (string \<times> hval) list" where
  "renamed_fields fs =
     (case map_of fs ''licenseUrl'' of
        None \<Rightarrow> fs
      | Some u \<Rightarrow>
          if truthy_h u then AList.delete ''licenseUrl'' (AList.update ''serverURL'' u fs) else fs)"

text \<open>
  What the loop over the entries \<open>es\<close> has made of the output object, whose properties
  were \<open>ofs\<close> and now are \<open>ofs'\<close>: the keys of the entries are added; each of them
  refers to a new object (at \<open>bound\<close> or above), the renamed copy of the options of the
  last entry with that key; the other keys are as they were.
\<close>

definition loop_post ::
  "heap \<Rightarrow> nat \<Rightarrow> (string \<times> hval) list \<Rightarrow> hval list \<Rightarrow> heap \<Rightarrow> (string \<times> hval) list \<Rightarrow> bool" where
  "loop_post h0 bound ofs es h' ofs' =
     (fst ` set ofs' = fst ` set ofs \<union> entry_key h0 ` set es \<and>
      (\<forall>k. k \<notin> entry_key h0 ` set es \<longrightarrow> map_of ofs' k = map_of ofs k) \<and>
      (\<forall>k \<in> entry_key h0 ` set es. \<exists>c fs0.
          map_of ofs' k = Some (HRef c) \<and> bound \<le> c \<and>
          cell h' c = Some (HObj (renamed_fields fs0)) \<and>
          copy_of h0 (field_of h0 (last (filter (\<lambda>e. entry_key h0 e = k) es)) ''options'') fs0))"

text \<open>
  The protection data \<open>cfs\<close> made from the options \<open>opts\<close>: where \<open>licenseUrl\<close> is
  truthy (and not itself an object), \<open>serverURL\<close> has its value, \<open>licenseUrl\<close> is gone
  and every other property that is not an object is as in the options; where
  \<open>licenseUrl\<close> is absent or falsy, \<open>cfs\<close> is a copy of the options as they are.
\<close>

definition protection_data :: "heap \<Rightarrow> hval \<Rightarrow> (string \<times> hval) list \<Rightarrow> bool" where
  "protection_data h opts cfs =
     (let licenseUrl = field_of h opts ''licenseUrl'' in
      if is_ref licenseUrl then True
      else if truthy_h licenseUrl
      then map_of cfs ''serverURL'' = Some licenseUrl \<and> map_of cfs ''licenseUrl'' = None \<and>
           (\<forall>k v. k \<noteq> ''licenseUrl'' \<and> k \<noteq> ''serverURL'' \<and>
                  map_of (own_fields h opts) k = Some v \<and> \<not> is_ref v \<longrightarrow>
                  map_of cfs k = Some v)
      else copy_of h opts cfs)"

section \<open>The playback session adapter: \<open>Html5DashJS\<close>\<close>

subsection \<open>The engine, the player and the adapter instance\<close>

text \<open>A JavaScript number as \<open>duration()\<close> returns it.\<close>

datatype js_number = Fin int | PosInfinity | NotANumber

text \<open>The calls the adapter makes on a dash.js MediaPlayer.\<close>

datatype engine_call =
    Initialize
  | On string
  | Off string
  | AttachView
  | AttachTTMLRenderingDiv
  | SetAutoPlay bool
  | SetProtectionData hval
  | AttachSource hval
  | Reset

text \<open>
  A dash.js MediaPlayer as the adapter meets it: what \<open>isDynamic()\<close> and \<open>duration()\<close>
  answer (the engine's own business) and the calls received so far.
\<close>

record engine =
  isDynamic :: bool
  engine_duration :: js_number
  calls :: "engine_call list"

definition created_engine :: engine where
  "created_engine = \<lparr>isDynamic = False, engine_duration = NotANumber, calls = []\<rparr>"

text \<open>The slot \<open>player.dash\<close>: its \<open>mediaPlayer\<close> is an engine or \<open>undefined\<close>.\<close>

record dash_slot =
  mediaPlayer :: "nat option"

text \<open>
  Everything outside the adapter instance that its methods read or change: the heap,
  the engines created by \<open>dashjs.MediaPlayer().create()\<close> (an engine is known by its
  position), the player (\<open>player.dash\<close>, its child components, the events triggered on
  it), the tech's \<open>isReady_\<close> flag and the warnings logged.
\<close>

record world =
  heap :: heap
  engines :: "engine list"
  player_dash :: "dash_slot option"
  player_children :: "string list"
  triggered :: "string list"
  tech_isReady :: bool
  warnings :: "string list"

text \<open>
  The fields of an instance (\<open>this\<close>). \<open>this_player\<close> tells whether \<open>this.player\<close> has
  been assigned. \<open>effective_source\<close> is not a field of the instance: it records the
  value of the constructor's variable \<open>source\<close> after the \<open>updatesource\<close> hooks have
  run (\<open>None\<close> when the constructor returned before that).
\<close>

record adapter =
  this_player :: bool
  this_hasFiniteDuration :: bool
  this_mediaPlayer :: "nat option"
  this_keySystemOptions :: hval
  this_ttmlContainer :: bool
  effective_source :: "hval option"

text \<open>The options the model reads: \<open>options.dash.useTTML\<close>.\<close>

record options =
  useTTML :: bool

subsection \<open>The hook registry\<close>

text \<open>
  An \<open>updatesource\<close> hook is called with the source and returns the source to go on
  with; it may change the heap on the way.
\<close>

type_synonym hook = "hval \<Rightarrow> heap \<Rightarrow> hval \<times> heap"

text \<open>
  The statics of \<open>Html5DashJS\<close>: the deprecated \<open>updateSourceData\<close> (when installed)
  and the registry \<open>hooks_\<close>, from a lifecycle name to its hooks (none for a name never
  used).
\<close>

record statics =
  updateSourceData :: "hook option"
  hooks_registry :: "string \<Rightarrow> hook list"

text \<open>
  \<open>Html5DashJS.hooks(type, hook)\<close>: \<open>concat\<close> appends the hook, or the hooks of an
  array, behind those registered; no second argument is the empty list here.
\<close>

definition hooks :: "string \<Rightarrow> hook list \<Rightarrow> statics \<Rightarrow> hook list \<times> statics" where
  "hooks type hook st =
     (let st' = st\<lparr>hooks_registry := (hooks_registry st)(type := hooks_registry st type @ hook)\<rparr>
      in (hooks_registry st' type, st'))"

definition hook :: "string \<Rightarrow> hook list \<Rightarrow> statics \<Rightarrow> statics" where
  "hook type hk st = snd (hooks type hk st)"

text \<open>\<open>hooks.forEach(function (hook) { source = hook(source); })\<close>\<close>

fun run_hooks :: "hook list \<Rightarrow> hval \<Rightarrow> heap \<Rightarrow> hval \<times> heap" where
  "run_hooks [] source h = (source, h)"
| "run_hooks (f # fs) source h = (case f source h of (source', h') \<Rightarrow> run_hooks fs source' h')"

definition updateSourceData_deprecated :: string where
  "updateSourceData_deprecated =
     ''updateSourceData has been deprecated. Please switch to using hook(\"updatesource\", callback).''"

text \<open>
  The block the constructor and \<open>canHandleKeySystems\<close> share: the deprecated
  \<open>updateSourceData\<close> first, with its warning, then the \<open>updatesource\<close> hooks.
\<close>

definition update_source :: "statics \<Rightarrow> hval \<Rightarrow> world \<Rightarrow> hval \<times> world" where
  "update_source st source w =
     (case (case updateSourceData st of
              None \<Rightarrow> (source, w)
            | Some f \<Rightarrow>
                (case f source (heap w) of
                   (source', h') \<Rightarrow>
                     (source', w\<lparr>heap := h', warnings := warnings w @ [updateSourceData_deprecated]\<rparr>)))
      of (source1, w1) \<Rightarrow>
        (case run_hooks (fst (hooks ''updatesource'' [] st)) source1 (heap w1) of
           (source2, h2) \<Rightarrow> (source2, w1\<lparr>heap := h2\<rparr>)))"

subsection \<open>The constructor\<close>

definition ttml_component :: string where
  "ttml_component = ''TTMLTextTrackDisplay''"

text \<open>
  The calls the constructor makes on the engine it has created, in their order. (The
  \<open>beforeinitialize\<close> callbacks, the setters named in \<open>options.dash\<close> and the listeners of
  the track bridges are not part of the model.)
\<close>

definition setup_calls :: "bool \<Rightarrow> hval \<Rightarrow> hval \<Rightarrow> engine_call list" where
  "setup_calls ttml keySystemOptions manifestSource =
     [Initialize, On ''ERROR'', On ''MANIFEST_LOADED'', AttachView] @
     (if ttml then [AttachTTMLRenderingDiv] else []) @
     [SetAutoPlay False, SetProtectionData keySystemOptions, AttachSource manifestSource]"

definition Html5DashJS ::
  "merge \<Rightarrow> statics \<Rightarrow> options \<Rightarrow> hval \<Rightarrow> world \<Rightarrow> (js_error + adapter) \<times> world" where
  "Html5DashJS mo st opts source w =
     (let this = \<lparr>this_player = True, this_hasFiniteDuration = False, this_mediaPlayer = None,
                 this_keySystemOptions = HUndefined, this_ttmlContainer = False,
                 effective_source = None\<rparr>;
          w1 = w\<lparr>player_dash :=
                   (case player_dash w of None \<Rightarrow> Some \<lparr>mediaPlayer = None\<rparr> | Some d \<Rightarrow> Some d)\<rparr>
      in case get_field (heap w1) source ''src'' of
           Inl e \<Rightarrow> (Inl e, w1)
         | Inr src \<Rightarrow>
             if \<not> truthy_h src then (Inr this, w1)
             else
               (case update_source st source (w1\<lparr>tech_isReady := False\<rparr>) of
                  (source', w2) \<Rightarrow>
                    (case get_field (heap w2) source' ''src'' of
                       Inl e \<Rightarrow> (Inl e, w2)
                     | Inr manifestSource \<Rightarrow>
                         (case get_field (heap w2) source' ''keySystemOptions'' of
                            Inl e \<Rightarrow> (Inl e, w2)
                          | Inr kso \<Rightarrow>
                              (case buildDashJSProtData mo kso (heap w2) of
                                 (Inl e, h3) \<Rightarrow> (Inl e, w2\<lparr>heap := h3\<rparr>)
                               | (Inr ks, h3) \<Rightarrow>
                                   (let mp = length (engines w2);
                                        eng = created_engine
                                          \<lparr>calls := setup_calls (useTTML opts) ks manifestSource\<rparr>
                                    in (Inr (this\<lparr>this_mediaPlayer := Some mp,
                                                  this_keySystemOptions := ks,
                                                  this_ttmlContainer := useTTML opts,
                                                  effective_source := Some source'\<rparr>),
                                        w2\<lparr>heap := h3,
                                           engines := engines w2 @ [eng],
                                           player_dash := Some \<lparr>mediaPlayer = Some mp\<rparr>,
                                           player_children :=
                                             player_children w2 @
                                             (if useTTML opts then [ttml_component] else []),
                                           tech_isReady := True\<rparr>)))))))"

subsection \<open>\<open>dispose\<close>\<close>

definition engine_calls :: "nat \<Rightarrow> engine_call list \<Rightarrow> world \<Rightarrow> world" where
  "engine_calls mp cs w =
     (if mp < length (engines w)
      then w\<lparr>engines := (engines w)[mp := (engines w ! mp)\<lparr>calls := calls (engines w ! mp) @ cs\<rparr>]\<rparr>
      else w)"

definition dispose :: "adapter \<Rightarrow> world \<Rightarrow> (js_error + unit) \<times> world" where
  "dispose this w =
     (let w1 = (case this_mediaPlayer this of
                  Some mp \<Rightarrow> engine_calls mp [Off ''ERROR'', Off ''MANIFEST_LOADED'', Reset] w
                | None \<Rightarrow> w)
      in if \<not> this_player this then (Inl TypeError, w1)
         else
           (let w2 = w1\<lparr>player_dash := None\<rparr>
            in if this_ttmlContainer this
               then (Inr (), w2\<lparr>player_children := removeAll ttml_component (player_children w2)\<rparr>)
               else (Inr (), w2)))"

subsection \<open>\<open>duration\<close> and the MANIFEST_LOADED listener \<open>getDuration_\<close>\<close>

definition duration :: "adapter \<Rightarrow> world \<Rightarrow> js_error + js_number" where
  "duration this w =
     (case this_mediaPlayer this of
        None \<Rightarrow> Inl TypeError
      | Some mp \<Rightarrow>
          if mp < length (engines w)
          then (if isDynamic (engines w ! mp) \<and> \<not> this_hasFiniteDuration this
                then Inr PosInfinity
                else Inr (engine_duration (engines w ! mp)))
          else Inl TypeError)"

text \<open>
  The parsed manifest of a MANIFEST_LOADED event, \<open>event.data\<close>: its
  \<open>mediaPresentationDuration\<close> (\<open>undefined\<close> when the manifest has none) and its periods,
  each an object that may have a \<open>duration\<close>.
\<close>

record manifest =
  mediaPresentationDuration :: jsval
  Period_asArray :: "jsval list"

text \<open>
  \<open>event.data.mediaPresentationDuration || periods[periods.length - 1].duration\<close> as a
  condition: the second operand is evaluated only when the first is falsy, and reading
  \<open>duration\<close> of the element at \<open>periods.length - 1\<close> throws when there is no period.
\<close>

definition manifest_has_duration :: "manifest \<Rightarrow> js_error + bool" where
  "manifest_has_duration m =
     (if truthy (mediaPresentationDuration m) then Inr True
      else (case get_prop (if Period_asArray m = [] then JUndefined else last (Period_asArray m))
                   ''duration'' of
              Inl e \<Rightarrow> Inl e
            | Inr d \<Rightarrow> Inr (truthy d)))"

definition getDuration ::
  "manifest \<Rightarrow> adapter \<times> world \<Rightarrow> js_error + adapter \<times> world" where
  "getDuration m s =
     (case s of
        (this, w) \<Rightarrow>
          (let oldHasFiniteDuration = this_hasFiniteDuration this
           in case manifest_has_duration m of
                Inl e \<Rightarrow> Inl e
              | Inr b \<Rightarrow>
                  Inr (this\<lparr>this_hasFiniteDuration := b\<rparr>,
                       if b \<noteq> oldHasFiniteDuration
                       then w\<lparr>triggered := triggered w @ [''durationchange'']\<rparr>
                       else w)))"

text \<open>A run of MANIFEST_LOADED events; an exception in the listener ends the run.\<close>

fun manifests_loaded ::
  "manifest list \<Rightarrow> adapter \<times> world \<Rightarrow> js_error + adapter \<times> world" where
  "manifests_loaded [] s = Inr s"
| "manifests_loaded (m # ms) s =
     (case getDuration m s of Inl e \<Rightarrow> Inl e | Inr s' \<Rightarrow> manifests_loaded ms s')"

subsection \<open>Manifests, as the properties of the duration speak of them\<close>

text \<open>The duration a listener finds in a manifest that it can read.\<close>

definition period_duration :: "jsval \<Rightarrow> jsval" where
  "period_duration p = (case get_prop p ''duration'' of Inl e \<Rightarrow> JUndefined | Inr d \<Rightarrow> d)"

definition has_duration :: "manifest \<Rightarrow> bool" where
  "has_duration m =
     (truthy (mediaPresentationDuration m) \<or>
      (Period_asArray m \<noteq> [] \<and> truthy (period_duration (last (Period_asArray m)))))"

text \<open>
  The listener can read a manifest that has a truthy \<open>mediaPresentationDuration\<close> or a
  last period (an object).
\<close>

definition readable :: "manifest \<Rightarrow> bool" where
  "readable m =
     (truthy (mediaPresentationDuration m) \<or>
      (Period_asArray m \<noteq> [] \<and> last (Period_asArray m) \<noteq> JUndefined \<and>
       last (Period_asArray m) \<noteq> JNull))"

text \<open>How often a sequence of flags differs from the flag before, starting from \<open>b\<close>.\<close>

fun flips :: "bool \<Rightarrow> bool list \<Rightarrow> nat" where
  "flips b [] = 0"
| "flips b (x # xs) = (if x \<noteq> b then 1 else 0) + flips x xs"

section \<open>Hooks used to state the properties\<close>

text \<open>
  A hook that sets a marker property on the source it is given and returns that source:
  \<open>function (source) { source[k] = v; return source; }\<close>.
\<close>

definition add_marker :: "string \<Rightarrow> hval \<Rightarrow> hook" where
  "add_marker k v source h = (source, (case source of HRef a \<Rightarrow> set_field a k v h | _ \<Rightarrow> h))"

text \<open>
  The source and the heap after the block that the constructor and the probe share:
  \<open>updateSourceData\<close>, when installed, then the hooks in the order of the registry.
\<close>
definition updated :: "statics \<Rightarrow> hval \<Rightarrow> heap \<Rightarrow> hval \<times> heap" where
  "updated st source h =
     (case (case updateSourceData st of None \<Rightarrow> (source, h) | Some f \<Rightarrow> f source h) of
        (source1, h1) \<Rightarrow> run_hooks (hooks_registry st ''updatesource'') source1 h1)"

definition two_marker_hooks :: statics where
  "two_marker_hooks =
     hook ''updatesource'' [add_marker ''second'' (HNum 2)]
       (hook ''updatesource'' [add_marker ''first'' (HNum 1)]
          \<lparr>updateSourceData = None, hooks_registry = (\<lambda>t. [])\<rparr>)"

section \<open>The source-handler probe\<close>

subsection \<open>\<open>JSON.parse(JSON.stringify(source))\<close>\<close>

text \<open>
  \<open>JSON.stringify\<close> reads the heap and produces a document, here a \<open>jsval\<close>: a property
  whose value is \<open>undefined\<close> is left out, an \<open>undefined\<close> array element becomes \<open>null\<close>,
  and \<open>undefined\<close> itself gives \<open>undefined\<close> instead of a text.
\<close>

fun json_fields ::
  "(hval \<Rightarrow> js_error + jsval) \<Rightarrow> (string \<times> hval) list \<Rightarrow> js_error + (string \<times> jsval) list" where
  "json_fields f [] = Inr []"
| "json_fields f ((k, v) # rest) =
     (case f v of
        Inl e \<Rightarrow> Inl e
      | Inr j \<Rightarrow>
          (case json_fields f rest of
             Inl e \<Rightarrow> Inl e
           | Inr js \<Rightarrow> Inr (if j = JUndefined then js else (k, j) # js)))"

fun json_elems :: "(hval \<Rightarrow> js_error + jsval) \<Rightarrow> hval list \<Rightarrow> js_error + jsval list" where
  "json_elems f [] = Inr []"
| "json_elems f (v # rest) =
     (case f v of
        Inl e \<Rightarrow> Inl e
      | Inr j \<Rightarrow>
          (case json_elems f rest of
             Inl e \<Rightarrow> Inl e
           | Inr js \<Rightarrow> Inr ((if j = JUndefined then JNull else j) # js)))"

text \<open>
  The first argument bounds the nesting of objects. \<open>JSON.stringify\<close> throws a TypeError
  on a circular structure; a chain of references longer than the heap has cells goes
  through one cell twice, so with the length of the heap as the bound (\<open>json_copy\<close>
  below) the bound is reached on a circular structure only.
\<close>

fun stringify :: "nat \<Rightarrow> heap \<Rightarrow> hval \<Rightarrow> js_error + jsval" where
  "stringify d h HUndefined = Inr JUndefined"
| "stringify d h HNull = Inr JNull"
| "stringify d h (HBool b) = Inr (JBool b)"
| "stringify d h (HNum n) = Inr (JNum n)"
| "stringify d h (HStr s) = Inr (JStr s)"
| "stringify 0 h (HRef a) = Inl TypeError"
| "stringify (Suc d) h (HRef a) =
     (case cell h a of
        None \<Rightarrow> Inr JUndefined
      | Some (HObj fs) \<Rightarrow>
          (case json_fields (stringify d h) fs of Inl e \<Rightarrow> Inl e | Inr js \<Rightarrow> Inr (JObj js))
      | Some (HArr xs) \<Rightarrow>
          (case json_elems (stringify d h) xs of Inl e \<Rightarrow> Inl e | Inr js \<Rightarrow> Inr (JArr js)))"

text \<open>\<open>JSON.parse\<close> builds the document's value out of new objects.\<close>

fun parse :: "jsval \<Rightarrow> heap \<Rightarrow> hval \<times> heap"
  and parse_fields :: "(string \<times> jsval) list \<Rightarrow> heap \<Rightarrow> (string \<times> hval) list \<times> heap"
  and parse_elems :: "jsval list \<Rightarrow> heap \<Rightarrow> hval list \<times> heap" where
  "parse JUndefined h = (HUndefined, h)"
| "parse JNull h = (HNull, h)"
| "parse (JBool b) h = (HBool b, h)"
| "parse (JNum n) h = (HNum n, h)"
| "parse (JStr s) h = (HStr s, h)"
| "parse (JObj fs) h =
     (case parse_fields fs h of (fs', h') \<Rightarrow> (HRef (length h'), h' @ [HObj fs']))"
| "parse (JArr xs) h =
     (case parse_elems xs h of (xs', h') \<Rightarrow> (HRef (length h'), h' @ [HArr xs']))"
| "parse_fields [] h = ([], h)"
| "parse_fields (p # rest) h =
     (case parse (snd p) h of
        (v, h1) \<Rightarrow> (case parse_fields rest h1 of (rest', h2) \<Rightarrow> ((fst p, v) # rest', h2)))"
| "parse_elems [] h = ([], h)"
| "parse_elems (j # rest) h =
     (case parse j h of
        (v, h1) \<Rightarrow> (case parse_elems rest h1 of (rest', h2) \<Rightarrow> (v # rest', h2)))"

text \<open>
  \<open>JSON.parse(JSON.stringify(source))\<close>: \<open>JSON.parse(undefined)\<close> is a SyntaxError.
\<close>

definition json_copy :: "hval \<Rightarrow> heap \<Rightarrow> (js_error + hval) \<times> heap" where
  "json_copy source h =
     (case stringify (length h) h source of
        Inl e \<Rightarrow> (Inl e, h)
      | Inr j \<Rightarrow>
          if j = JUndefined then (Inl SyntaxError, h)
          else (case parse j h of (v, h') \<Rightarrow> (Inr v, h')))"

subsection \<open>\<open>canHandleKeySystems\<close>, \<open>canPlayType\<close> and \<open>canHandleSource\<close>\<close>

text \<open>
  The encrypted-media capabilities of the runtime: whether
  \<open>window.navigator.requestMediaKeySystemAccess\<close> and a video element's
  \<open>msSetMediaKeys\<close> are truthy.
\<close>

record runtime =
  requestMediaKeySystemAccess :: bool
  msSetMediaKeys :: bool

definition canHandleKeySystems ::
  "statics \<Rightarrow> runtime \<Rightarrow> hval \<Rightarrow> world \<Rightarrow> (js_error + bool) \<times> world" where
  "canHandleKeySystems st rt source w =
     (case json_copy source (heap w) of
        (Inl e, h1) \<Rightarrow> (Inl e, w\<lparr>heap := h1\<rparr>)
      | (Inr copy, h1) \<Rightarrow>
          (case update_source st copy (w\<lparr>heap := h1\<rparr>) of
             (source', w2) \<Rightarrow>
               (case get_field (heap w2) source' ''keySystemOptions'' of
                  Inl e \<Rightarrow> (Inl e, w2)
                | Inr kso \<Rightarrow>
                    if truthy_h kso \<and> \<not> (requestMediaKeySystemAccess rt \<or> msSetMediaKeys rt)
                    then (Inr False, w2)
                    else (Inr True, w2))))"

text \<open>Matching with the flag \<open>i\<close>: ASCII letters are compared without their case.\<close>

definition to_lower :: "char \<Rightarrow> char" where
  "to_lower c =
     (case map_of (zip ''ABCDEFGHIJKLMNOPQRSTUVWXYZ'' ''abcdefghijklmnopqrstuvwxyz'') c of
        Some l \<Rightarrow> l
      | None \<Rightarrow> c)"

text \<open>\<open>/^application\/dash\+xml/i.test(type)\<close>\<close>

definition dashTypeRE_test :: "hval \<Rightarrow> bool" where
  "dashTypeRE_test type = starts_with (map to_lower (to_string type)) ''application/dash+xml''"

text \<open>\<open>/\.mpd/i.test(src)\<close>\<close>

definition dashExtRE_test :: "hval \<Rightarrow> bool" where
  "dashExtRE_test src = contains_str (map to_lower (to_string src)) ''.mpd''"

definition canPlayType :: "hval \<Rightarrow> string" where
  "canPlayType type = (if dashTypeRE_test type then ''probably'' else [])"

definition canHandleSource ::
  "statics \<Rightarrow> runtime \<Rightarrow> hval \<Rightarrow> world \<Rightarrow> (js_error + string) \<times> world" where
  "canHandleSource st rt source w =
     (case canHandleKeySystems st rt source w of
        (Inl e, w') \<Rightarrow> (Inl e, w')
      | (Inr ok, w') \<Rightarrow>
          if \<not> ok then (Inr [], w')
          else
            (case get_field (heap w') source ''type'' of
               Inl e \<Rightarrow> (Inl e, w')
             | Inr type \<Rightarrow>
                 if canPlayType type \<noteq> [] then (Inr ''probably'', w')
                 else
                   (case get_field (heap w') source ''src'' of
                      Inl e \<Rightarrow> (Inl e, w')
                    | Inr src \<Rightarrow>
                        if dashExtRE_test src then (Inr ''maybe'', w') else (Inr [], w'))))"

text \<open>
  A value, an object and a heap that keep to the cells from address \<open>n\<close> on: every
  reference they hold is to such a cell.
\<close>

definition fresh_val :: "nat \<Rightarrow> hval \<Rightarrow> bool" where
  "fresh_val n v = (case v of HRef a \<Rightarrow> n \<le> a | _ \<Rightarrow> True)"

definition fresh_obj :: "nat \<Rightarrow> hobj \<Rightarrow> bool" where
  "fresh_obj n ob =
     (case ob of
        HObj fs \<Rightarrow> list_all (\<lambda>p. fresh_val n (snd p)) fs
      | HArr xs \<Rightarrow> list_all (fresh_val n) xs)"

definition region_closed :: "nat \<Rightarrow> heap \<Rightarrow> bool" where
  "region_closed n h = list_all (fresh_obj n) (drop n h)"

text \<open>
  A hook that does what it does to its argument: called with a source whose objects
  all lie from address \<open>n\<close> on, it leaves the cells below \<open>n\<close> alone and returns a
  source of the same kind. (It may change the objects of its argument and make new ones.)
\<close>

definition confined :: "nat \<Rightarrow> hook \<Rightarrow> bool" where
  "confined n f =
     (\<forall>v h. n \<le> length h \<and> fresh_val n v \<and> region_closed n h \<longrightarrow>
        (case f v h of
           (v', h') \<Rightarrow>
             n \<le> length h' \<and> take n h' = take n h \<and> fresh_val n v' \<and> region_closed n h'))"

text \<open>
  What holds while the probe works on its copy: the heap \<open>h0\<close> of the call is a prefix
  of the heap, left as it was, and the source in hand and the cells added keep to the
  added cells.
\<close>
definition on_copy :: "heap \<Rightarrow> hval \<Rightarrow> heap \<Rightarrow> bool" where
  "on_copy h0 v h =
     (length h0 \<le> length h \<and> take (length h0) h = h0 \<and> fresh_val (length h0) v \<and>
      region_closed (length h0) h)"

text \<open>\<open>JSON.stringify\<close> returns for this value: the structure is not circular.\<close>

definition serialisable :: "heap \<Rightarrow> hval \<Rightarrow> bool" where
  "serialisable h v = (case stringify (length h) h v of Inl e \<Rightarrow> False | Inr j \<Rightarrow> True)"

text \<open>
  The extension of a URL, for the claim's words ``the URL has a .mpd extension'': what
  follows the last dot of the URL's path, the path ending where a query or a fragment
  starts.
\<close>

definition url_extension :: "string \<Rightarrow> string" where
  "url_extension url =
     rev (takeWhile (\<lambda>c. c \<noteq> CHR ''.'')
            (rev (takeWhile (\<lambda>c. c \<noteq> CHR ''?'' \<and> c \<noteq> CHR ''#'') url)))"

section \<open>Caption style overlay: \<open>tryUpdateStyle\<close>, \<open>removeStyle\<close>, \<open>updateStyle\<close>\<close>

text \<open>
  The rendered caption is a tree of elements, each with an identity, a tag name (in
  lower case) and its child elements. The inline styles are kept apart from the tree,
  by element and property, the empty string standing for a property that is not set;
  \<open>updateStyle\<close> changes the styles and never the tree.
\<close>

datatype element = Element nat string "element list"

type_synonym styles = "nat \<Rightarrow> string \<Rightarrow> string"

text \<open>
  The runtime: which writes \<open>el.style[prop] = value\<close> it rejects by throwing, and the
  text of \<open>parseFloat(size) * percent + 'px'\<close> (floating-point arithmetic is the
  runtime's).
\<close>

record css_runtime =
  rejects :: "nat \<Rightarrow> string \<Rightarrow> string \<Rightarrow> bool"
  scaled :: "string \<Rightarrow> decimal \<Rightarrow> string"




text \<open>One statement after another: an exception ends the sequence.\<close>

definition and_then :: "js_error + 'a \<Rightarrow> ('a \<Rightarrow> js_error + 'b) \<Rightarrow> js_error + 'b" where
  "and_then r f = (case r of Inl e \<Rightarrow> Inl e | Inr x \<Rightarrow> f x)"


text \<open>
  \<open>captionDiv.getElementsByTagName('span')\<close>: the descendants with tag \<open>span\<close> in document
  order, each with its \<open>parentNode\<close>.
\<close>

fun spans_in :: "nat \<Rightarrow> element list \<Rightarrow> (nat \<times> nat) list"
  and spans_of :: "element \<Rightarrow> (nat \<times> nat) list" where
  "spans_in parent [] = []"
| "spans_in parent (Element el tag children # rest) =
     (if tag = ''span'' then [(el, parent)] else []) @ spans_of (Element el tag children) @
     spans_in parent rest"
| "spans_of (Element el tag children) = spans_in el children"

text \<open>
  The values of the caption settings, \<open>textTrackSettings.getValues()\<close> of video.js. A
  setting is the value of the option selected in the settings dialog, a string: a
  colour code such as \<open>'#FFF'\<close>, the name of an edge style or of a font family, and for
  an opacity one of \<open>'0'\<close>, \<open>'0.5'\<close> and \<open>'1'\<close>. The font size alone is made a number. A
  setting that is not made (the property is missing) is \<open>None\<close>.
\<close>

record overrides =
  color :: "string option"
  textOpacity :: "string option"
  backgroundColor :: "string option"
  backgroundOpacity :: "string option"
  windowColor :: "string option"
  windowOpacity :: "string option"
  edgeStyle :: "string option"
  fontPercent :: "decimal option"
  fontFamily :: "string option"












text \<open>The same runtime, but one that accepts every write.\<close>

definition permissive :: "css_runtime \<Rightarrow> css_runtime" where
  "permissive css = css\<lparr>rejects := (\<lambda>el prop v. False)\<rparr>"

text \<open>
  Two style stores agree up to rejected writes: they differ at most in \<open>color\<close> and
  \<open>backgroundColor\<close>, and only where the runtime rejects the value the second has.
\<close>

definition agree :: "css_runtime \<Rightarrow> styles \<Rightarrow> styles \<Rightarrow> bool" where
  "agree css st1 st0 =
     (\<forall>el prop. st1 el prop = st0 el prop \<or>
        ((prop = ''color'' \<or> prop = ''backgroundColor'') \<and> rejects css el prop (st0 el prop)))"





definition sim :: "css_runtime \<Rightarrow> js_error + styles \<Rightarrow> js_error + styles \<Rightarrow> bool" where
  "sim css r1 r0 =
     (case r1 of Inl e \<Rightarrow> False
      | Inr st1 \<Rightarrow> (case r0 of Inl e \<Rightarrow> False | Inr st0 \<Rightarrow> agree css st1 st0))"







section \<open>Properties of the error translation\<close>

lemma mediasource_code_string:
  "mediasource_code (JStr m) =
     Inr (if contains_str m ''MEDIA_ERR_ABORTED'' then 1
          else if contains_str m ''MEDIA_ERR_NETWORK'' then 2
          else if contains_str m ''MEDIA_ERR_DECODE'' then 3
          else if contains_str m ''MEDIA_ERR_SRC_NOT_SUPPORTED'' then 4
          else if contains_str m ''MEDIA_ERR_ENCRYPTED'' then 5
          else 4)"
  by (simp add: mediasource_code_def split: bool.splits)

lemma JStr_image_iff: "JStr s \<in> JStr ` A \<longleftrightarrow> s \<in> A"
  by auto

lemma translate_capability_mediasource:
  "error ev = JStr ''capability'' \<Longrightarrow> event ev = JStr ''mediasource'' \<Longrightarrow>
   translate ev = Inr (Some \<lparr>code = 4, message = JStr unsupported_feature\<rparr>)"
  by (simp add: translate_def)

lemma translate_manifest_forwarded:
  "error ev = JStr ''manifestError'' \<Longrightarrow> event ev = JObj fs \<Longrightarrow>
   map_of fs ''id'' = Some (JStr i) \<Longrightarrow> i \<in> set manifest_error_ids \<Longrightarrow>
   translate ev =
     Inr (Some \<lparr>code = 4,
                message = (case map_of fs ''message'' of None \<Rightarrow> JUndefined | Some m \<Rightarrow> m)\<rparr>)"
  by (simp add: translate_def is_forwarded_manifest_error_def JStr_image_iff)

lemma translate_manifest_ignored:
  "error ev = JStr ''manifestError'' \<Longrightarrow> event ev = JObj fs \<Longrightarrow>
   map_of fs ''id'' = Some (JStr i) \<Longrightarrow> i \<notin> set manifest_error_ids \<Longrightarrow>
   translate ev = Inr None"
  by (simp add: translate_def is_forwarded_manifest_error_def JStr_image_iff)

lemma translate_mediasource:
  "error ev = JStr ''mediasource'' \<Longrightarrow> event ev = JStr m \<Longrightarrow>
   translate ev =
     Inr (Some \<lparr>code = (if contains_str m ''MEDIA_ERR_ABORTED'' then 1
                          else if contains_str m ''MEDIA_ERR_NETWORK'' then 2
                          else if contains_str m ''MEDIA_ERR_DECODE'' then 3
                          else if contains_str m ''MEDIA_ERR_SRC_NOT_SUPPORTED'' then 4
                          else if contains_str m ''MEDIA_ERR_ENCRYPTED'' then 5
                          else 4),
                message = JStr m\<rparr>)"
  by (simp add: translate_def is_forwarded_manifest_error_def mediasource_code_string)

lemma translate_other_kinds:
  assumes "error ev \<noteq> JStr ''manifestError''" and "error ev \<noteq> JStr ''mediasource''"
    and "\<not> (error ev = JStr ''capability'' \<and> event ev = JStr ''mediasource'')"
  shows "translate ev =
     (if error ev = JStr ''capability'' \<and> event ev = JStr ''encryptedmedia''
      then Inr (Some \<lparr>code = 5, message = JStr unsupported_encryption\<rparr>)
      else if error ev = JStr ''key_session''
      then Inr (Some \<lparr>code = 5, message = event ev\<rparr>)
      else if error ev = JStr ''download''
      then Inr (Some \<lparr>code = 2, message = JStr too_many_download_errors\<rparr>)
      else if error ev = JStr ''mssError''
      then Inr (Some \<lparr>code = 3, message = event ev\<rparr>)
      else Inr None)"
  using assms by (simp add: translate_def is_forwarded_manifest_error_def)

text \<open>
  C1, as the claim states it, fails: the \<open>mediasource\<close> branch tests the message for
  \<open>MEDIA_ERR_ABORTED\<close> before \<open>MEDIA_ERR_NETWORK\<close>, so a message that contains both
  is reported with code 1, not 2.
\<close>

theorem retriggerError_network_counterexample:
  "contains_str ''MEDIA_ERR_ABORTED (MEDIA_ERR_NETWORK)'' ''MEDIA_ERR_NETWORK'' \<and>
   retriggerError
     \<lparr>error = JStr ''mediasource'', event = JStr ''MEDIA_ERR_ABORTED (MEDIA_ERR_NETWORK)''\<rparr>
     \<lparr>player_errors = [], reset_timeouts = []\<rparr> =
   Inr \<lparr>player_errors = [\<lparr>code = 1, message = JStr ''MEDIA_ERR_ABORTED (MEDIA_ERR_NETWORK)''\<rparr>],
        reset_timeouts = [10]\<rparr>"
  by (simp add: retriggerError_def surface_def translate_mediasource)

text \<open>
  C1 (amended): the listener follows the taxonomy, the first matching row first. An
  event with \<open>error === 'manifestError'\<close> whose payload has one of the six forwarded
  ids (\<open>codec\<close> among them) is reported with code 4 and the payload's own message; a
  \<open>mediasource\<close> event with a string message is reported with the code of the first
  marker the message contains, in the order \<open>MEDIA_ERR_ABORTED\<close> (1),
  \<open>MEDIA_ERR_NETWORK\<close> (2), \<open>MEDIA_ERR_DECODE\<close> (3), \<open>MEDIA_ERR_SRC_NOT_SUPPORTED\<close> (4),
  \<open>MEDIA_ERR_ENCRYPTED\<close> (5), and with code 4 when it contains none; so a message that
  contains \<open>MEDIA_ERR_NETWORK\<close> and not \<open>MEDIA_ERR_ABORTED\<close> gives code 2. The other
  kinds give the fixed codes of the table, every other event is ignored, and every
  reported error is followed by the 10 ms reset timer.
\<close>

theorem retriggerError_taxonomy:
  "(error ev = JStr ''capability'' \<and> event ev = JStr ''mediasource'' \<longrightarrow>
      retriggerError ev h = Inr (surface \<lparr>code = 4, message = JStr unsupported_feature\<rparr> h))
   \<and> (error ev = JStr ''manifestError'' \<and> event ev = JObj fs \<and>
      map_of fs ''id'' = Some (JStr i) \<and> i \<in> set manifest_error_ids \<longrightarrow>
      retriggerError ev h =
        Inr (surface \<lparr>code = 4,
               message = (case map_of fs ''message'' of None \<Rightarrow> JUndefined | Some m \<Rightarrow> m)\<rparr> h))
   \<and> (error ev = JStr ''manifestError'' \<and> event ev = JObj fs \<and>
      map_of fs ''id'' = Some (JStr i) \<and> i \<notin> set manifest_error_ids \<longrightarrow>
      retriggerError ev h = Inr h)
   \<and> (error ev = JStr ''mediasource'' \<and> event ev = JStr m \<longrightarrow>
      retriggerError ev h =
        Inr (surface \<lparr>code = (if contains_str m ''MEDIA_ERR_ABORTED'' then 1
                               else if contains_str m ''MEDIA_ERR_NETWORK'' then 2
                               else if contains_str m ''MEDIA_ERR_DECODE'' then 3
                               else if contains_str m ''MEDIA_ERR_SRC_NOT_SUPPORTED'' then 4
                               else if contains_str m ''MEDIA_ERR_ENCRYPTED'' then 5
                               else 4),
               message = JStr m\<rparr> h))
   \<and> (error ev = JStr ''capability'' \<and> event ev = JStr ''encryptedmedia'' \<longrightarrow>
      retriggerError ev h = Inr (surface \<lparr>code = 5, message = JStr unsupported_encryption\<rparr> h))
   \<and> (error ev = JStr ''key_session'' \<longrightarrow>
      retriggerError ev h = Inr (surface \<lparr>code = 5, message = event ev\<rparr> h))
   \<and> (error ev = JStr ''download'' \<longrightarrow>
      retriggerError ev h = Inr (surface \<lparr>code = 2, message = JStr too_many_download_errors\<rparr> h))
   \<and> (error ev = JStr ''mssError'' \<longrightarrow>
      retriggerError ev h = Inr (surface \<lparr>code = 3, message = event ev\<rparr> h))
   \<and> (error ev \<notin> JStr ` {''capability'', ''manifestError'', ''mediasource'', ''key_session'',
                          ''download'', ''mssError''} \<longrightarrow>
      retriggerError ev h = Inr h)
   \<and> (error ev = JStr ''capability'' \<and> event ev \<notin> JStr ` {''mediasource'', ''encryptedmedia''} \<longrightarrow>
      retriggerError ev h = Inr h)"
proof -
  have surfaced: "retriggerError ev h = Inr (surface err h)" if "translate ev = Inr (Some err)" for err
    using that by (simp add: retriggerError_def)
  have ignored: "retriggerError ev h = Inr h" if "translate ev = Inr None"
    using that by (simp add: retriggerError_def)
  show ?thesis
    by (intro conjI impI; (elim conjE)?)
       (simp_all add: surfaced ignored translate_capability_mediasource
          translate_manifest_forwarded translate_manifest_ignored translate_mediasource
          translate_other_kinds)
qed

theorem retriggerError_taxonomy_witness:
  "retriggerError
     \<lparr>error = JStr ''manifestError'',
      event = JObj [(''id'', JStr ''codec''), (''message'', JStr ''no supported codec'')]\<rparr>
     \<lparr>player_errors = [], reset_timeouts = []\<rparr> =
   Inr (surface \<lparr>code = 4, message = JStr ''no supported codec''\<rparr>
          \<lparr>player_errors = [], reset_timeouts = []\<rparr>)
   \<and> retriggerError
     \<lparr>error = JStr ''mediasource'', event = JStr ''MEDIA_ERR_NETWORK (connection lost)''\<rparr>
     \<lparr>player_errors = [], reset_timeouts = []\<rparr> =
   Inr (surface \<lparr>code = 2, message = JStr ''MEDIA_ERR_NETWORK (connection lost)''\<rparr>
          \<lparr>player_errors = [], reset_timeouts = []\<rparr>)"
proof -
  let ?h = "\<lparr>player_errors = [], reset_timeouts = []\<rparr>"
  let ?codec = "\<lparr>error = JStr ''manifestError'',
      event = JObj [(''id'', JStr ''codec''), (''message'', JStr ''no supported codec'')]\<rparr>"
  let ?net = "\<lparr>error = JStr ''mediasource'', event = JStr ''MEDIA_ERR_NETWORK (connection lost)''\<rparr>"
  have a: "retriggerError ?codec ?h =
      Inr (surface \<lparr>code = 4, message = JStr ''no supported codec''\<rparr> ?h)"
    using retriggerError_taxonomy
      [of ?codec ?h "[(''id'', JStr ''codec''), (''message'', JStr ''no supported codec'')]" "''codec''"]
    by (simp add: manifest_error_ids_def)
  have b: "retriggerError ?net ?h =
      Inr (surface \<lparr>code = 2, message = JStr ''MEDIA_ERR_NETWORK (connection lost)''\<rparr> ?h)"
    using retriggerError_taxonomy [of ?net ?h _ _ "''MEDIA_ERR_NETWORK (connection lost)''"]
    by simp
  show ?thesis using a b by simp
qed

section \<open>Properties of \<open>constructColor\<close>\<close>







section \<open>Properties of the audio track bridge\<close>

lemma audioTracksChangeHandler_calls:
  "setCurrentTrack_calls (audioTracksChangeHandler ds vs e) =
     setCurrentTrack_calls e @ map (findDashAudioTrack ds) (filter enabled vs)"
  by (induction vs arbitrary: e) (simp_all add: setCurrentTrack_def)

lemma audioTracksChangeHandler_current:
  "current_track (audioTracksChangeHandler ds vs e) = current_track e"
  by (induction vs arbitrary: e) (simp_all add: setCurrentTrack_def)

lemma findDashAudioTrack_Some:
  "findDashAudioTrack ds v = Some d \<Longrightarrow>
   d \<in> set ds \<and> track_id v = ''dash-audio-'' @ show_nat (index d)"
  by (auto simp: findDashAudioTrack_def generateIdFromTrackIndex_def find_Some_iff)

text \<open>
  C8, as the claim states it, fails: the handler never reads the engine's active track.
  With engine track 0 active and the host track \<open>dash-audio-0\<close> enabled, so that the two
  do not differ, a change event still calls \<open>setCurrentTrack\<close>.
\<close>

theorem audioTracksChangeHandler_counterexample:
  "findDashAudioTrack [\<lparr>index = 0\<rparr>, \<lparr>index = 1\<rparr>] \<lparr>track_id = ''dash-audio-0'', enabled = True\<rparr> =
     current_track \<lparr>current_track = Some \<lparr>index = 0\<rparr>, setCurrentTrack_calls = []\<rparr>
   \<and> setCurrentTrack_calls
       (audioTracksChangeHandler [\<lparr>index = 0\<rparr>, \<lparr>index = 1\<rparr>]
          [\<lparr>track_id = ''dash-audio-0'', enabled = True\<rparr>,
           \<lparr>track_id = ''dash-audio-1'', enabled = False\<rparr>]
          \<lparr>current_track = Some \<lparr>index = 0\<rparr>, setCurrentTrack_calls = []\<rparr>) =
     [Some \<lparr>index = 0\<rparr>]"
  by (simp add: setCurrentTrack_def findDashAudioTrack_def generateIdFromTrackIndex_def
      show_nat.simps digit_char_def)

text \<open>
  C8 (amended): on every change event the handler calls \<open>setCurrentTrack\<close> once for each
  enabled host track, in list order, whatever the engine's active track is; the
  argument is the first engine track whose derived identifier \<open>'dash-audio-' + index\<close>
  equals the host track's id (\<open>undefined\<close> when there is none), and nothing else of the
  engine changes.
\<close>

theorem audioTracksChangeHandler_switches:
  "setCurrentTrack_calls (audioTracksChangeHandler ds vs e) =
     setCurrentTrack_calls e @ map (findDashAudioTrack ds) (filter enabled vs)
   \<and> current_track (audioTracksChangeHandler ds vs e) = current_track e
   \<and> (findDashAudioTrack ds v = Some d \<longrightarrow>
        d \<in> set ds \<and> track_id v = ''dash-audio-'' @ show_nat (index d))
   \<and> (findDashAudioTrack ds v = None \<longleftrightarrow>
        (\<forall>d \<in> set ds. track_id v \<noteq> ''dash-audio-'' @ show_nat (index d)))"
proof -
  have "findDashAudioTrack ds v = None \<longleftrightarrow>
        (\<forall>d \<in> set ds. track_id v \<noteq> ''dash-audio-'' @ show_nat (index d))"
    by (auto simp: findDashAudioTrack_def generateIdFromTrackIndex_def find_None_iff)
  then show ?thesis
    using audioTracksChangeHandler_calls [of ds vs e] audioTracksChangeHandler_current [of ds vs e]
      findDashAudioTrack_Some [of ds v d]
    by blast
qed

theorem audioTracksChangeHandler_switches_witness:
  "setCurrentTrack_calls
     (audioTracksChangeHandler [\<lparr>index = 0\<rparr>, \<lparr>index = 1\<rparr>]
        [\<lparr>track_id = ''dash-audio-0'', enabled = False\<rparr>,
         \<lparr>track_id = ''dash-audio-1'', enabled = True\<rparr>]
        \<lparr>current_track = Some \<lparr>index = 0\<rparr>, setCurrentTrack_calls = []\<rparr>) =
   [Some \<lparr>index = 1\<rparr>]
   \<and> track_id \<lparr>track_id = ''dash-audio-1'', enabled = True\<rparr> = ''dash-audio-'' @ show_nat 1"
proof -
  let ?ds = "[\<lparr>index = 0\<rparr>, \<lparr>index = (1::nat)\<rparr>]"
  let ?v = "\<lparr>track_id = ''dash-audio-1'', enabled = True\<rparr>"
  let ?e = "\<lparr>current_track = Some \<lparr>index = 0\<rparr>, setCurrentTrack_calls = []\<rparr>"
  have f: "findDashAudioTrack ?ds ?v = Some \<lparr>index = 1\<rparr>"
    by (simp add: findDashAudioTrack_def generateIdFromTrackIndex_def show_nat.simps digit_char_def)
  note t = audioTracksChangeHandler_switches
    [of ?ds "[\<lparr>track_id = ''dash-audio-0'', enabled = False\<rparr>, ?v]" ?e ?v "\<lparr>index = 1\<rparr>"]
  from t f show ?thesis by simp
qed

section \<open>Properties of the key-system options\<close>

lemma length_set_field [simp]: "length (set_field a k v h) = length h"
  by (simp add: set_field_def split: option.splits hobj.splits)

lemma length_delete_field [simp]: "length (delete_field a k h) = length h"
  by (simp add: delete_field_def split: option.splits hobj.splits)

lemma take_set_field: "n \<le> a \<Longrightarrow> take n (set_field a k v h) = take n h"
  by (simp add: set_field_def split: option.splits hobj.splits)

lemma take_delete_field: "n \<le> a \<Longrightarrow> take n (delete_field a k h) = take n h"
  by (simp add: delete_field_def split: option.splits hobj.splits)

lemma cell_set_field_other: "b \<noteq> a \<Longrightarrow> cell (set_field a k v h) b = cell h b"
  by (simp add: set_field_def cell_def split: option.splits hobj.splits)

lemma cell_delete_field_other: "b \<noteq> a \<Longrightarrow> cell (delete_field a k h) b = cell h b"
  by (simp add: delete_field_def cell_def split: option.splits hobj.splits)

lemma cell_set_field_same:
  "cell h a = Some (HObj fs) \<Longrightarrow> cell (set_field a k v h) a = Some (HObj (AList.update k v fs))"
  by (auto simp add: set_field_def cell_def split: if_splits)

lemma cell_delete_field_same:
  "cell h a = Some (HObj fs) \<Longrightarrow> cell (delete_field a k h) a = Some (HObj (AList.delete k fs))"
  by (auto simp add: delete_field_def cell_def split: if_splits)

lemma cell_take: "a < n \<Longrightarrow> take n h' = take n h \<Longrightarrow> n \<le> length h \<Longrightarrow> n \<le> length h' \<Longrightarrow> cell h' a = cell h a"
  by (metis cell_def nth_take order_less_le_trans)

lemma length_rename_licenseUrl [simp]: "length (rename_licenseUrl c h) = length h"
  by (simp add: rename_licenseUrl_def Let_def)

lemma take_rename_licenseUrl: "n \<le> c \<Longrightarrow> take n (rename_licenseUrl c h) = take n h"
  by (simp add: rename_licenseUrl_def Let_def take_set_field take_delete_field)

lemma cell_rename_licenseUrl_other: "b \<noteq> c \<Longrightarrow> cell (rename_licenseUrl c h) b = cell h b"
  by (simp add: rename_licenseUrl_def Let_def cell_set_field_other cell_delete_field_other)

lemma cell_rename_licenseUrl_same:
  "cell h c = Some (HObj fs) \<Longrightarrow> cell (rename_licenseUrl c h) c = Some (HObj (renamed_fields fs))"
  by (auto simp add: rename_licenseUrl_def renamed_fields_def Let_def own_fields_def
      cell_set_field_same cell_delete_field_same split: option.splits)

lemma mergeOptions_result:
  assumes "mo h x \<noteq> []" and "mergeOptions mo x h = (c, h1)"
  shows "h1 = h @ mo h x" and "length h \<le> c" and "c < length h1"
    and "cell h1 c = Some (last (mo h x))"
proof -
  obtain n where n: "length (mo h x) = Suc n"
    using assms(1) by (cases "mo h x") auto
  have c: "c = length h + n" and h1: "h1 = h @ mo h x"
    using assms(2) n by (auto simp: mergeOptions_def)
  show "h1 = h @ mo h x" by (fact h1)
  show "length h \<le> c" using c by simp
  show "c < length h1" using c h1 n by simp
  show "cell h1 c = Some (last (mo h x))"
    using c h1 n assms(1) by (simp add: cell_def nth_append last_conv_nth)
qed


lemma get_field_ok: "entry_ok e \<Longrightarrow> get_field h e k = Inr (field_of h e k)"
  by (cases e) (simp_all add: entry_ok_def get_field_def field_of_def)

lemma own_fields_same:
  assumes "valid_in n v" and "take n h' = take n h" and "n \<le> length h" and "n \<le> length h'"
  shows "own_fields h' v = own_fields h v"
proof (cases v)
  case (HRef a)
  then have "a < n" using assms(1) by (simp add: valid_in_def)
  then have "cell h' a = cell h a" using assms(2-4) by (rule cell_take)
  then show ?thesis using HRef by (simp add: own_fields_def)
qed (simp_all add: own_fields_def)

lemma field_of_same:
  assumes "valid_in n v" and "take n h' = take n h" and "n \<le> length h" and "n \<le> length h'"
  shows "field_of h' v k = field_of h v k"
  by (simp add: field_of_def own_fields_same [OF assms])

lemma cell_in_set: "cell h a = Some ob \<Longrightarrow> ob \<in> set h"
  by (metis cell_def nth_mem option.distinct(1) option.inject)

lemma own_fields_cell:
  assumes "p \<in> set (own_fields h v)"
  shows "\<exists>a. v = HRef a \<and> cell h a = Some (HObj (own_fields h v))"
proof (cases v)
  case (HRef a)
  show ?thesis
  proof (cases "cell h a")
    case None
    with HRef assms show ?thesis by (simp add: own_fields_def)
  next
    case (Some ob)
    with HRef assms show ?thesis by (cases ob) (simp_all add: own_fields_def)
  qed
qed (use assms in \<open>simp_all add: own_fields_def\<close>)

lemma array_elems_cell:
  assumes "e \<in> set (array_elems h v)"
  shows "\<exists>a. v = HRef a \<and> cell h a = Some (HArr (array_elems h v))"
proof (cases v)
  case (HRef a)
  show ?thesis
  proof (cases "cell h a")
    case None
    with HRef assms show ?thesis by (simp add: array_elems_def)
  next
    case (Some ob)
    with HRef assms show ?thesis by (cases ob) (simp_all add: array_elems_def)
  qed
qed (use assms in \<open>simp_all add: array_elems_def\<close>)

lemma wf_heap_field:
  assumes "wf_heap h" and "valid_in (length h) v"
  shows "valid_in (length h) (field_of h v k)"
proof (cases "map_of (own_fields h v) k")
  case None
  then show ?thesis by (simp add: field_of_def valid_in_def)
next
  case (Some x)
  then have "(k, x) \<in> set (own_fields h v)" by (rule map_of_SomeD)
  then obtain a where v: "v = HRef a" and c: "cell h a = Some (HObj (own_fields h v))"
    using own_fields_cell by blast
  then have "HObj (own_fields h v) \<in> set h"
    by (simp add: cell_in_set)
  then have "refs_ok (length h) (HObj (own_fields h v))"
    using assms(1) by (simp add: wf_heap_def list_all_iff)
  then have "valid_in (length h) x"
    using \<open>(k, x) \<in> set (own_fields h v)\<close> by (auto simp: refs_ok_def list_all_iff)
  then show ?thesis using Some by (simp add: field_of_def)
qed

lemma wf_heap_elems:
  assumes "wf_heap h" and "e \<in> set (array_elems h v)"
  shows "valid_in (length h) e"
proof -
  from assms(2) obtain a where "v = HRef a" and c: "cell h a = Some (HArr (array_elems h v))"
    using array_elems_cell by blast
  then have "HArr (array_elems h v) \<in> set h"
    by (simp add: cell_in_set)
  then have "refs_ok (length h) (HArr (array_elems h v))"
    using assms(1) by (simp add: wf_heap_def list_all_iff)
  then show ?thesis using assms(2) by (auto simp: refs_ok_def list_all_iff)
qed

text \<open>The loop leaves every cell that exists, the output object apart, as it is.\<close>
lemma protData_loop_frame:
  assumes "copies mo" and "output < length h" and "protData_loop mo es output h = (r, h')"
  shows "length h \<le> length h' \<and> (\<forall>a. a < length h \<and> a \<noteq> output \<longrightarrow> cell h' a = cell h a)"
  using assms(2,3)
proof (induction es arbitrary: h)
  case Nil
  then show ?case by simp
next
  case (Cons e es)
  show ?case
  proof (cases "get_field h e ''options''")
    case (Inl err)
    with Cons.prems show ?thesis by simp
  next
    case (Inr opts)
    obtain c h1 where m: "mergeOptions mo opts h = (c, h1)" by (cases "mergeOptions mo opts h")
    have ne: "mo h opts \<noteq> []" using assms(1) by (simp add: copies_def)
    note mr = mergeOptions_result [OF ne m]
    let ?h2 = "rename_licenseUrl c h1"
    have h2: "length ?h2 = length h1" "\<forall>a. a \<noteq> c \<longrightarrow> cell ?h2 a = cell h1 a"
      by (simp_all add: cell_rename_licenseUrl_other)
    have h1c: "\<forall>a. a < length h \<longrightarrow> cell h1 a = cell h a"
      using mr(1) by (simp add: cell_def nth_append)
    show ?thesis
    proof (cases "get_field ?h2 e ''name''")
      case (Inl err)
      with Cons.prems Inr m have "h' = ?h2" by (simp add: Let_def)
      then show ?thesis using h2 h1c mr by auto
    next
      case name: (Inr nm)
      let ?h3 = "set_field output (to_string nm) (HRef c) ?h2"
      have run: "protData_loop mo es output ?h3 = (r, h')"
        using Cons.prems Inr m name by (simp add: Let_def)
      have len3: "length ?h3 = length h1" by simp
      have "output < length ?h3" using Cons.prems(1) mr by simp
      from Cons.IH [OF this run]
      have ih: "length ?h3 \<le> length h'"
        "\<forall>a. a < length ?h3 \<and> a \<noteq> output \<longrightarrow> cell h' a = cell ?h3 a" by simp_all
      have "cell h' a = cell h a" if "a < length h" "a \<noteq> output" for a
      proof -
        have "a \<noteq> c" "a < length ?h3" using that mr by simp_all
        then have "cell h' a = cell ?h3 a" using ih(2) that by simp
        also have "\<dots> = cell ?h2 a" using that by (simp add: cell_set_field_other)
        also have "\<dots> = cell h1 a" using h2 \<open>a \<noteq> c\<close> by simp
        also have "\<dots> = cell h a" using h1c that by simp
        finally show ?thesis .
      qed
      moreover have "length h \<le> length h'" using ih(1) mr by simp
      ultimately show ?thesis by simp
    qed
  qed
qed



lemma loop_post_Nil: "loop_post h0 b ofs [] h' ofs"
  by (simp add: loop_post_def)

lemma loop_post_Cons:
  assumes ih: "loop_post h0 b' (AList.update (entry_key h0 e) (HRef c) ofs) es h' ofs'"
    and b: "b \<le> b'" "b \<le> c"
    and c: "cell h' c = Some (HObj (renamed_fields fs0))"
    and cp: "copy_of h0 (field_of h0 e ''options'') fs0"
  shows "loop_post h0 b ofs (e # es) h' ofs'"
proof -
  let ?key = "entry_key h0"
  let ?ofs3 = "AList.update (?key e) (HRef c) ofs"
  have ih3: "fst ` set ofs' = fst ` set ?ofs3 \<union> ?key ` set es"
    and ih4: "\<And>k. k \<notin> ?key ` set es \<Longrightarrow> map_of ofs' k = map_of ?ofs3 k"
    and ih5: "\<And>k. k \<in> ?key ` set es \<Longrightarrow> \<exists>c fs0.
          map_of ofs' k = Some (HRef c) \<and> b' \<le> c \<and>
          cell h' c = Some (HObj (renamed_fields fs0)) \<and>
          copy_of h0 (field_of h0 (last (filter (\<lambda>e. ?key e = k) es)) ''options'') fs0"
    using ih unfolding loop_post_def by blast+
  have keys: "fst ` set ofs' = fst ` set ofs \<union> ?key ` set (e # es)"
    using ih3 by (auto simp: dom_update)
  have others: "map_of ofs' k = map_of ofs k" if "k \<notin> ?key ` set (e # es)" for k
    using ih4 [of k] that by (simp add: update_conv')
  have mine: "\<exists>c fs0. map_of ofs' k = Some (HRef c) \<and> b \<le> c \<and>
        cell h' c = Some (HObj (renamed_fields fs0)) \<and>
        copy_of h0 (field_of h0 (last (filter (\<lambda>e. ?key e = k) (e # es))) ''options'') fs0"
    if k: "k \<in> ?key ` set (e # es)" for k
  proof (cases "k \<in> ?key ` set es")
    case True
    then have "filter (\<lambda>e. ?key e = k) es \<noteq> []"
      by (auto simp: filter_empty_conv)
    then have l: "last (filter (\<lambda>e. ?key e = k) (e # es)) = last (filter (\<lambda>e. ?key e = k) es)"
      by simp
    from ih5 [OF True] obtain c' fs' where
      "map_of ofs' k = Some (HRef c')" "b' \<le> c'"
      "cell h' c' = Some (HObj (renamed_fields fs'))"
      "copy_of h0 (field_of h0 (last (filter (\<lambda>e. ?key e = k) es)) ''options'') fs'"
      by blast
    then show ?thesis unfolding l using b(1) by (intro exI [of _ c'] exI [of _ fs']) simp
  next
    case False
    then have ke: "k = ?key e" using k by simp
    have "filter (\<lambda>e. ?key e = k) es = []"
      using False by (auto simp: filter_empty_conv)
    then have l: "last (filter (\<lambda>e. ?key e = k) (e # es)) = e" using ke by simp
    have "map_of ofs' k = Some (HRef c)"
      using ih4 [OF False] ke by (simp add: update_conv')
    then show ?thesis unfolding l using b(2) c cp
      by (intro exI [of _ c] exI [of _ fs0]) simp
  qed
  show ?thesis
    unfolding loop_post_def using keys others mine by blast
qed

lemma protData_loop_content:
  assumes mo: "copies mo"
    and n: "length h0 = n" "take n h = h0"
    and out: "n \<le> output" "output < length h" "cell h output = Some (HObj ofs)"
    and es: "\<forall>e\<in>set es. entry_ok e \<and> valid_in n e \<and> valid_in n (field_of h0 e ''options'')"
  shows "\<exists>h' ofs'. protData_loop mo es output h = (Inr (), h') \<and>
          cell h' output = Some (HObj ofs') \<and> loop_post h0 (length h) ofs es h' ofs'"
  using n(2) out es
proof (induction es arbitrary: h ofs)
  case Nil
  then show ?case by (simp add: loop_post_Nil)
next
  case (Cons e es)
  have nh: "n \<le> length h" using Cons.prems(2,3) by simp
  have t0: "take n h0 = h0" using n(1) by simp
  have e: "entry_ok e" "valid_in n e" "valid_in n (field_of h0 e ''options'')"
    using Cons.prems(5) by simp_all
  have same: "take n h = take n h0" using Cons.prems(1) t0 by simp
  let ?opts = "field_of h0 e ''options''"
  have fo: "field_of h e ''options'' = ?opts"
    using field_of_same [OF e(2) same] n(1) nh by simp
  have g1: "get_field h e ''options'' = Inr ?opts"
    using get_field_ok [OF e(1)] fo by simp
  obtain c h1 where m: "mergeOptions mo ?opts h = (c, h1)" by (cases "mergeOptions mo ?opts h")
  have ne: "mo h ?opts \<noteq> []" using mo by (simp add: copies_def)
  note mr = mergeOptions_result [OF ne m]
  obtain fs0 where fs0: "last (mo h ?opts) = HObj fs0" "copy_of h ?opts fs0"
    using mo unfolding copies_def by blast
  have "own_fields h ?opts = own_fields h0 ?opts"
    using own_fields_same [OF e(3) same] n(1) nh by simp
  then have cp: "copy_of h0 ?opts fs0" using fs0(2) by (simp add: copy_of_def)
  define h2 where "h2 = rename_licenseUrl c h1"
  have c1: "cell h1 c = Some (HObj fs0)" using mr(4) fs0(1) by simp
  have c2: "cell h2 c = Some (HObj (renamed_fields fs0))"
    unfolding h2_def using c1 by (rule cell_rename_licenseUrl_same)
  have nc: "n \<le> c" using nh mr(2) by simp
  have t1: "take n h1 = h0" using mr(1) nh Cons.prems(1) by simp
  have t2: "take n h2 = h0" unfolding h2_def using take_rename_licenseUrl [OF nc] t1 by simp
  have len2: "length h2 = length h1" unfolding h2_def by simp
  have "take n h2 = take n h0" using t2 t0 by simp
  then have fn: "field_of h2 e ''name'' = field_of h0 e ''name''"
    using field_of_same [OF e(2), of h2 h0] n(1) nc mr(3) len2 by simp
  define k where "k = entry_key h0 e"
  have g2: "get_field h2 e ''name'' = Inr (field_of h0 e ''name'')"
    using get_field_ok [OF e(1)] fn by simp
  define h3 where "h3 = set_field output k (HRef c) h2"
  have oc: "output \<noteq> c" using Cons.prems(3) mr(2) by simp
  have "cell h1 output = cell h output"
    using mr(1) Cons.prems(3) by (simp add: cell_def nth_append)
  then have o2: "cell h2 output = Some (HObj ofs)"
    unfolding h2_def using Cons.prems(4) oc by (simp add: cell_rename_licenseUrl_other)
  have o3: "cell h3 output = Some (HObj (AList.update k (HRef c) ofs))"
    unfolding h3_def using o2 by (rule cell_set_field_same)
  have c3: "cell h3 c = Some (HObj (renamed_fields fs0))"
    unfolding h3_def using c2 oc by (simp add: cell_set_field_other)
  have t3: "take n h3 = h0" unfolding h3_def using take_set_field [OF Cons.prems(2)] t2 by simp
  have len3: "length h3 = length h1" unfolding h3_def using len2 by simp
  have l3: "output < length h3" using Cons.prems(3) mr len3 by simp
  have es': "\<forall>e\<in>set es. entry_ok e \<and> valid_in n e \<and> valid_in n (field_of h0 e ''options'')"
    using Cons.prems(5) by simp
  have run: "protData_loop mo (e # es) output h = protData_loop mo es output h3"
    using g1 m g2 by (simp add: Let_def entry_key_def h3_def h2_def k_def)
  from Cons.IH [OF t3 Cons.prems(2) l3 o3 es']
  obtain h' ofs' where ih:
    "protData_loop mo es output h3 = (Inr (), h')"
    "cell h' output = Some (HObj ofs')"
    "loop_post h0 (length h3) (AList.update k (HRef c) ofs) es h' ofs'"
    by blast
  have frame: "cell h' c = cell h3 c"
    using protData_loop_frame [OF mo l3 ih(1)] mr(3) oc len3 by simp
  have "loop_post h0 (length h) ofs (e # es) h' ofs'"
  proof (rule loop_post_Cons)
    show "loop_post h0 (length h3) (AList.update (entry_key h0 e) (HRef c) ofs) es h' ofs'"
      using ih(3) by (simp add: k_def)
    show "length h \<le> length h3" using mr len3 by simp
    show "length h \<le> c" by (rule mr(2))
    show "cell h' c = Some (HObj (renamed_fields fs0))" using frame c3 by simp
    show "copy_of h0 (field_of h0 e ''options'') fs0" by (rule cp)
  qed
  then show ?case unfolding run using ih(1,2) by blast
qed


lemma copy_related_map_of:
  assumes "list_all2 (\<lambda>p q. fst q = fst p \<and> (is_ref (snd p) \<or> snd q = snd p)) xs ys"
  shows "(map_of xs k = None \<longrightarrow> map_of ys k = None) \<and>
         (\<forall>v. map_of xs k = Some v \<and> \<not> is_ref v \<longrightarrow> map_of ys k = Some v)"
  using assms
  by (induction rule: list_all2_induct) (auto split: prod.splits)

lemma copy_of_None:
  "copy_of h x fs \<Longrightarrow> map_of (own_fields h x) k = None \<Longrightarrow> map_of fs k = None"
  using copy_related_map_of [of "own_fields h x" fs k] by (simp add: copy_of_def)

lemma copy_of_prim:
  "copy_of h x fs \<Longrightarrow> map_of (own_fields h x) k = Some v \<Longrightarrow> \<not> is_ref v \<Longrightarrow>
   map_of fs k = Some v"
  using copy_related_map_of [of "own_fields h x" fs k] by (simp add: copy_of_def)

lemma renamed_fields_protection:
  assumes "copy_of h x fs0"
  shows "protection_data h x (renamed_fields fs0)"
proof (cases "map_of (own_fields h x) ''licenseUrl''")
  case None
  then have "map_of fs0 ''licenseUrl'' = None" using assms by (rule copy_of_None [rotated])
  then have "renamed_fields fs0 = fs0" by (simp add: renamed_fields_def)
  then show ?thesis using None assms by (simp add: protection_data_def field_of_def)
next
  case (Some u)
  show ?thesis
  proof (cases "is_ref u")
    case True
    then show ?thesis using Some by (simp add: protection_data_def field_of_def)
  next
    case False
    have u: "map_of fs0 ''licenseUrl'' = Some u" using assms Some False by (rule copy_of_prim)
    show ?thesis
    proof (cases "truthy_h u")
      case True
      have r: "renamed_fields fs0 = AList.delete ''licenseUrl'' (AList.update ''serverURL'' u fs0)"
        using u True by (simp add: renamed_fields_def)
      have "map_of (renamed_fields fs0) k = Some v"
        if "k \<noteq> ''licenseUrl''" "k \<noteq> ''serverURL''" "map_of (own_fields h x) k = Some v" "\<not> is_ref v"
        for k v
        using copy_of_prim [OF assms that(3,4)] that(1,2) by (simp add: r delete_conv' update_conv')
      then show ?thesis
        using Some False True by (simp add: protection_data_def field_of_def r delete_conv' update_conv')
    next
      case nt: False
      then have "renamed_fields fs0 = fs0" using u by (simp add: renamed_fields_def)
      then show ?thesis using Some False nt assms by (simp add: protection_data_def field_of_def)
    qed
  qed
qed

lemma take_eq_cells:
  assumes "\<forall>a<n. cell h' a = cell h a" and "n \<le> length h" and "n \<le> length h'"
  shows "take n h' = take n h"
  using assms by (auto simp: list_eq_iff_nth_eq cell_def)

lemma buildDashJSProtData_null:
  "\<not> truthy_h kso \<or> \<not> is_array h kso \<Longrightarrow> fst (buildDashJSProtData mo kso h) = Inr HNull"
proof -
  assume a: "\<not> truthy_h kso \<or> \<not> is_array h kso"
  have "is_array (h @ [HObj []]) kso = is_array h kso"
    by (auto simp: is_array_def cell_def nth_append split: hval.splits)
  with a show ?thesis by (simp add: buildDashJSProtData_def alloc_def)
qed

lemma buildDashJSProtData_frame:
  assumes "copies mo"
  shows "take (length h) (snd (buildDashJSProtData mo kso h)) = h"
proof (cases "\<not> truthy_h kso \<or> \<not> is_array (h @ [HObj []]) kso")
  case True
  then show ?thesis by (simp add: buildDashJSProtData_def alloc_def)
next
  case False
  let ?h0 = "h @ [HObj []]"
  obtain r h' where run: "protData_loop mo (array_elems ?h0 kso) (length h) ?h0 = (r, h')"
    by (cases "protData_loop mo (array_elems ?h0 kso) (length h) ?h0")
  have s: "snd (buildDashJSProtData mo kso h) = h'"
    using False run by (cases r) (simp_all add: buildDashJSProtData_def alloc_def)
  have "length h < length ?h0" by simp
  from protData_loop_frame [OF assms this run]
  have len: "length ?h0 \<le> length h'"
    and cells: "\<forall>a. a < length ?h0 \<and> a \<noteq> length h \<longrightarrow> cell h' a = cell ?h0 a" by simp_all
  have "\<forall>a<length h. cell h' a = cell h a"
    using cells by (simp add: cell_def nth_append)
  then have "take (length h) h' = take (length h) h"
    using len by (intro take_eq_cells) simp_all
  then show ?thesis using s by simp
qed

lemma buildDashJSProtData_content:
  assumes mo: "copies mo" and wf: "wf_heap h" and arr: "is_array h kso"
    and ok: "\<forall>e\<in>set (array_elems h kso). entry_ok e"
  shows "\<exists>out h'. buildDashJSProtData mo kso h = (Inr (HRef out), h') \<and> length h \<le> out \<and>
      fst ` set (own_fields h' (HRef out)) = entry_key h ` set (array_elems h kso) \<and>
      (\<forall>e\<in>set (array_elems h kso). \<exists>c.
          map_of (own_fields h' (HRef out)) (entry_key h e) = Some (HRef c) \<and> length h < c \<and>
          protection_data h
            (field_of h (last (filter (\<lambda>e'. entry_key h e' = entry_key h e) (array_elems h kso)))
               ''options'')
            (own_fields h' (HRef c)))"
proof -
  let ?h0 = "h @ [HObj []]"
  let ?es = "array_elems h kso"
  obtain a where kso: "kso = HRef a" and a: "a < length h"
    using arr by (auto simp: is_array_def cell_def split: hval.splits option.splits if_splits)
  have arr0: "is_array ?h0 kso" and es0: "array_elems ?h0 kso = ?es"
    using arr kso a by (simp_all add: is_array_def array_elems_def cell_def nth_append)
  have tr: "truthy_h kso" using kso by simp
  have es: "\<forall>e\<in>set ?es. entry_ok e \<and> valid_in (length h) e \<and>
      valid_in (length h) (field_of h e ''options'')"
    using ok wf_heap_elems [OF wf] wf_heap_field [OF wf] by blast
  have "\<exists>h' ofs'. protData_loop mo ?es (length h) ?h0 = (Inr (), h') \<and>
          cell h' (length h) = Some (HObj ofs') \<and> loop_post h (length ?h0) [] ?es h' ofs'"
    by (rule protData_loop_content [OF mo refl _ _ _ _ es]) (simp_all add: cell_def)
  then obtain h' ofs' where run: "protData_loop mo ?es (length h) ?h0 = (Inr (), h')"
    and out: "cell h' (length h) = Some (HObj ofs')"
    and post: "loop_post h (length ?h0) [] ?es h' ofs'" by blast
  have res: "buildDashJSProtData mo kso h = (Inr (HRef (length h)), h')"
    using tr arr0 es0 run by (simp add: buildDashJSProtData_def alloc_def)
  have of_out: "own_fields h' (HRef (length h)) = ofs'" using out by (simp add: own_fields_def)
  have keys: "fst ` set ofs' = entry_key h ` set ?es"
    using post by (simp add: loop_post_def)
  have each: "\<exists>c. map_of ofs' (entry_key h e) = Some (HRef c) \<and> length h < c \<and>
          protection_data h
            (field_of h (last (filter (\<lambda>e'. entry_key h e' = entry_key h e) ?es)) ''options'')
            (own_fields h' (HRef c))" if "e \<in> set ?es" for e
  proof -
    from post that obtain c fs0 where c: "map_of ofs' (entry_key h e) = Some (HRef c)"
      "length ?h0 \<le> c" "cell h' c = Some (HObj (renamed_fields fs0))"
      "copy_of h (field_of h (last (filter (\<lambda>e'. entry_key h e' = entry_key h e) ?es)) ''options'') fs0"
      unfolding loop_post_def by blast
    have "own_fields h' (HRef c) = renamed_fields fs0" using c(3) by (simp add: own_fields_def)
    then show ?thesis using c(1,2) renamed_fields_protection [OF c(4)]
      by (intro exI [of _ c]) simp
  qed
  have "fst ` set (own_fields h' (HRef (length h))) = entry_key h ` set ?es"
    using keys of_out by simp
  moreover have "\<forall>e\<in>set ?es. \<exists>c.
          map_of (own_fields h' (HRef (length h))) (entry_key h e) = Some (HRef c) \<and> length h < c \<and>
          protection_data h
            (field_of h (last (filter (\<lambda>e'. entry_key h e' = entry_key h e) ?es)) ''options'')
            (own_fields h' (HRef c))"
    using each of_out by simp
  ultimately show ?thesis
    using res by (intro exI [of _ "length h"] exI [of _ h']) simp
qed

lemma copies_shallow_merge: "copies shallow_merge"
  by (simp add: copies_def shallow_merge_def copy_of_def list_all2_same)

lemmas heap_eval = buildDashJSProtData_def alloc_def is_array_def cell_def array_elems_def
  get_field_def own_fields_def mergeOptions_def shallow_merge_def rename_licenseUrl_def
  set_field_def delete_field_def AList.delete_eq Let_def

text \<open>
  C2, as the claim states it, fails: the renaming is guarded by the truthiness of
  \<open>options.licenseUrl\<close>, not by its presence. For the entry \<open>{name:
  'com.widevine.alpha', options: {licenseUrl: '', priority: 1}}\<close> the options have a
  \<open>licenseUrl\<close>, and the object returned for the key system still has it and has no
  \<open>serverURL\<close>.
\<close>

theorem buildDashJSProtData_counterexample:
  "map_of (own_fields
       [HArr [HRef 1],
        HObj [(''name'', HStr ''com.widevine.alpha''), (''options'', HRef 2)],
        HObj [(''licenseUrl'', HStr []), (''priority'', HNum 1)]] (HRef 2)) ''licenseUrl'' =
     Some (HStr [])
   \<and> buildDashJSProtData shallow_merge (HRef 0)
       [HArr [HRef 1],
        HObj [(''name'', HStr ''com.widevine.alpha''), (''options'', HRef 2)],
        HObj [(''licenseUrl'', HStr []), (''priority'', HNum 1)]] =
     (Inr (HRef 3),
      [HArr [HRef 1],
       HObj [(''name'', HStr ''com.widevine.alpha''), (''options'', HRef 2)],
       HObj [(''licenseUrl'', HStr []), (''priority'', HNum 1)],
       HObj [(''com.widevine.alpha'', HRef 4)],
       HObj [(''licenseUrl'', HStr []), (''priority'', HNum 1)]])"
  by (simp add: heap_eval)

text \<open>
  C2 (amended): \<open>buildDashJSProtData\<close> returns \<open>null\<close> when the list is falsy or not an
  array. In every case, exception or not, the objects that existed before the call
  (the list, its entries, their options) are left as they were. When the list is an
  array with no \<open>undefined\<close> or \<open>null\<close> entry, it returns a new object whose keys are
  the entries' key-system names; each name maps to a new object, made from the options
  of the last entry with that name: where \<open>licenseUrl\<close> is truthy, \<open>serverURL\<close> has
  its value, \<open>licenseUrl\<close> is removed and the other properties are copied; where
  \<open>licenseUrl\<close> is absent or falsy, the object is a plain copy (a falsy \<open>licenseUrl\<close>
  stays). This holds for a heap without dangling references and a \<open>mergeOptions\<close>
  that copies.
\<close>

theorem buildDashJSProtData_protData:
  assumes "copies mo" and "wf_heap h"
  shows "(\<not> truthy_h kso \<or> \<not> is_array h kso \<longrightarrow>
            fst (buildDashJSProtData mo kso h) = Inr HNull)
    \<and> take (length h) (snd (buildDashJSProtData mo kso h)) = h
    \<and> (is_array h kso \<and> (\<forall>e\<in>set (array_elems h kso). entry_ok e) \<longrightarrow>
        (\<exists>out h'. buildDashJSProtData mo kso h = (Inr (HRef out), h') \<and> length h \<le> out \<and>
           fst ` set (own_fields h' (HRef out)) = entry_key h ` set (array_elems h kso) \<and>
           (\<forall>e\<in>set (array_elems h kso). \<exists>c.
               map_of (own_fields h' (HRef out)) (entry_key h e) = Some (HRef c) \<and>
               length h < c \<and>
               protection_data h
                 (field_of h
                    (last (filter (\<lambda>e'. entry_key h e' = entry_key h e) (array_elems h kso)))
                    ''options'')
                 (own_fields h' (HRef c)))))"
  using buildDashJSProtData_null [of kso h mo] buildDashJSProtData_frame [OF assms(1), of h kso]
    buildDashJSProtData_content [OF assms, of kso]
  by blast

theorem buildDashJSProtData_protData_witness:
  "fst (buildDashJSProtData shallow_merge HUndefined
       [HArr [HRef 1],
        HObj [(''name'', HStr ''com.widevine.alpha''), (''options'', HRef 2)],
        HObj [(''licenseUrl'', HStr ''https://license.example/wv''), (''priority'', HNum 1)]]) =
     Inr HNull
   \<and> take 3 (snd (buildDashJSProtData shallow_merge (HRef 0)
       [HArr [HRef 1],
        HObj [(''name'', HStr ''com.widevine.alpha''), (''options'', HRef 2)],
        HObj [(''licenseUrl'', HStr ''https://license.example/wv''), (''priority'', HNum 1)]])) =
       [HArr [HRef 1],
        HObj [(''name'', HStr ''com.widevine.alpha''), (''options'', HRef 2)],
        HObj [(''licenseUrl'', HStr ''https://license.example/wv''), (''priority'', HNum 1)]]
   \<and> buildDashJSProtData shallow_merge (HRef 0)
       [HArr [HRef 1],
        HObj [(''name'', HStr ''com.widevine.alpha''), (''options'', HRef 2)],
        HObj [(''licenseUrl'', HStr ''https://license.example/wv''), (''priority'', HNum 1)]] =
     (Inr (HRef 3),
      [HArr [HRef 1],
       HObj [(''name'', HStr ''com.widevine.alpha''), (''options'', HRef 2)],
       HObj [(''licenseUrl'', HStr ''https://license.example/wv''), (''priority'', HNum 1)],
       HObj [(''com.widevine.alpha'', HRef 4)],
       HObj [(''priority'', HNum 1), (''serverURL'', HStr ''https://license.example/wv'')]])"
proof -
  let ?h = "[HArr [HRef 1],
        HObj [(''name'', HStr ''com.widevine.alpha''), (''options'', HRef 2)],
        HObj [(''licenseUrl'', HStr ''https://license.example/wv''), (''priority'', HNum 1)]]"
  have wf: "wf_heap ?h" by (simp add: wf_heap_def refs_ok_def valid_in_def)
  have a: "fst (buildDashJSProtData shallow_merge HUndefined ?h) = Inr HNull"
    using buildDashJSProtData_protData [OF copies_shallow_merge wf, of HUndefined] by simp
  have b: "take (length ?h) (snd (buildDashJSProtData shallow_merge (HRef 0) ?h)) = ?h"
    by (rule buildDashJSProtData_protData
        [OF copies_shallow_merge wf, of "HRef 0", THEN conjunct2, THEN conjunct1])
  have c: "buildDashJSProtData shallow_merge (HRef 0) ?h =
     (Inr (HRef 3),
      ?h @ [HObj [(''com.widevine.alpha'', HRef 4)],
            HObj [(''priority'', HNum 1), (''serverURL'', HStr ''https://license.example/wv'')]])"
    by (simp add: heap_eval)
  show ?thesis using a b c by simp
qed

section \<open>Properties of the adapter's life cycle\<close>

lemma Html5DashJS_no_src:
  assumes "get_field (heap w) source ''src'' = Inr src" and "\<not> truthy_h src"
  shows "Html5DashJS mo st opts source w =
     (Inr \<lparr>this_player = True, this_hasFiniteDuration = False, this_mediaPlayer = None,
           this_keySystemOptions = HUndefined, this_ttmlContainer = False,
           effective_source = None\<rparr>,
      w\<lparr>player_dash :=
          (case player_dash w of None \<Rightarrow> Some \<lparr>mediaPlayer = None\<rparr> | Some d \<Rightarrow> Some d)\<rparr>)"
  using assms by (simp add: Html5DashJS_def Let_def)

text \<open>
  C5: for a source whose \<open>src\<close> is absent or falsy the constructor returns normally
  before any engine is created: the instance has no \<open>mediaPlayer_\<close>, the list of
  engines, the heap and the tech's readiness are as they were, and \<open>dispose()\<close> on that
  instance returns without an exception (and still creates or calls no engine).
\<close>

theorem no_src_no_engine:
  assumes "get_field (heap w) source ''src'' = Inr src" and "\<not> truthy_h src"
  shows "case Html5DashJS mo st opts source w of
           (Inl e, w') \<Rightarrow> False
         | (Inr this, w') \<Rightarrow>
             this_mediaPlayer this = None \<and> engines w' = engines w \<and> heap w' = heap w \<and>
             tech_isReady w' = tech_isReady w \<and>
             fst (dispose this w') = Inr () \<and>
             engines (snd (dispose this w')) = engines w \<and>
             player_dash (snd (dispose this w')) = None"
  by (simp add: Html5DashJS_no_src [OF assms] dispose_def Let_def)

theorem no_src_no_engine_witness:
  "(case Html5DashJS shallow_merge \<lparr>updateSourceData = None, hooks_registry = (\<lambda>t. [])\<rparr>
           \<lparr>useTTML = True\<rparr> (HRef 0)
           \<lparr>heap = [HObj [(''src'', HStr ''''), (''type'', HStr ''application/dash+xml'')]],
            engines = [], player_dash = None, player_children = [], triggered = [],
            tech_isReady = True, warnings = []\<rparr> of
      (Inl e, w') \<Rightarrow> False
    | (Inr this, w') \<Rightarrow>
        this_mediaPlayer this = None \<and> engines w' = [] \<and> fst (dispose this w') = Inr ())"
proof -
  let ?w = "\<lparr>heap = [HObj [(''src'', HStr ''''), (''type'', HStr ''application/dash+xml'')]],
            engines = [], player_dash = None, player_children = [], triggered = [],
            tech_isReady = True, warnings = []\<rparr>"
  have src: "get_field (heap ?w) (HRef 0) ''src'' = Inr (HStr '''')"
    by (simp add: get_field_def own_fields_def cell_def)
  have falsy: "\<not> truthy_h (HStr '''')" by simp
  show ?thesis
    using no_src_no_engine [OF src falsy, of shallow_merge
        "\<lparr>updateSourceData = None, hooks_registry = (\<lambda>t. [])\<rparr>" "\<lparr>useTTML = True\<rparr>"]
    by (auto split: prod.splits sum.splits)
qed

section \<open>Properties of the duration\<close>

lemma manifest_has_duration_readable:
  "readable m \<Longrightarrow> manifest_has_duration m = Inr (has_duration m)"
  by (cases "last (Period_asArray m)")
     (auto simp: readable_def manifest_has_duration_def has_duration_def period_duration_def)

lemma getDuration_readable:
  assumes "readable m"
  shows "getDuration m (this, w) =
     Inr (this\<lparr>this_hasFiniteDuration := has_duration m\<rparr>,
          w\<lparr>triggered := triggered w @
               (if has_duration m \<noteq> this_hasFiniteDuration this then [''durationchange''] else [])\<rparr>)"
  by (simp add: getDuration_def manifest_has_duration_readable [OF assms])

lemma manifests_loaded_readable:
  assumes "\<forall>m \<in> set ms. readable m"
  shows "manifests_loaded ms (this, w) =
     Inr (this\<lparr>this_hasFiniteDuration := last (this_hasFiniteDuration this # map has_duration ms)\<rparr>,
          w\<lparr>triggered := triggered w @
               replicate (flips (this_hasFiniteDuration this) (map has_duration ms))
                 ''durationchange''\<rparr>)"
  using assms
proof (induction ms arbitrary: this w)
  case Nil
  then show ?case by simp
next
  case (Cons m ms)
  then have m: "readable m" and ms: "\<forall>m \<in> set ms. readable m" by simp_all
  show ?case
    by (simp add: getDuration_readable [OF m] Cons.IH [OF ms] replicate_add [symmetric])
qed

lemma duration_engine:
  assumes "this_mediaPlayer this = Some mp" and "mp < length (engines w)"
  shows "duration this w =
     Inr (if isDynamic (engines w ! mp) \<and> \<not> this_hasFiniteDuration this then PosInfinity
          else engine_duration (engines w ! mp))"
  using assms by (simp add: duration_def)

text \<open>
  C3, as the claim states it, fails twice. A manifest with
  \<open>mediaPresentationDuration = 0\<close> does not lack the attribute, yet the listener's test
  is one of truthiness: the flag becomes false and \<open>durationchange\<close> fires. And
  \<open>duration()\<close> returns \<open>Infinity\<close> for a stream that is not dynamic when that is the
  duration the engine reports.
\<close>

theorem duration_counterexample:
  "mediaPresentationDuration \<lparr>mediaPresentationDuration = JNum 0, Period_asArray = [JObj []]\<rparr>
     \<noteq> JUndefined
   \<and> getDuration \<lparr>mediaPresentationDuration = JNum 0, Period_asArray = [JObj []]\<rparr>
       (\<lparr>this_player = True, this_hasFiniteDuration = True, this_mediaPlayer = Some 0,
         this_keySystemOptions = HNull, this_ttmlContainer = False,
         effective_source = Some (HRef 0)\<rparr>,
        \<lparr>heap = [HObj [(''src'', HStr ''live.mpd'')]],
         engines = [\<lparr>isDynamic = True, engine_duration = Fin 30, calls = []\<rparr>],
         player_dash = Some \<lparr>mediaPlayer = Some 0\<rparr>, player_children = [], triggered = [],
         tech_isReady = True, warnings = []\<rparr>) =
     Inr (\<lparr>this_player = True, this_hasFiniteDuration = False, this_mediaPlayer = Some 0,
           this_keySystemOptions = HNull, this_ttmlContainer = False,
           effective_source = Some (HRef 0)\<rparr>,
          \<lparr>heap = [HObj [(''src'', HStr ''live.mpd'')]],
           engines = [\<lparr>isDynamic = True, engine_duration = Fin 30, calls = []\<rparr>],
           player_dash = Some \<lparr>mediaPlayer = Some 0\<rparr>, player_children = [],
           triggered = [''durationchange''], tech_isReady = True, warnings = []\<rparr>)
   \<and> duration
       \<lparr>this_player = True, this_hasFiniteDuration = True, this_mediaPlayer = Some 0,
        this_keySystemOptions = HNull, this_ttmlContainer = False,
        effective_source = Some (HRef 0)\<rparr>
       \<lparr>heap = [HObj [(''src'', HStr ''vod.mpd'')]],
        engines = [\<lparr>isDynamic = False, engine_duration = PosInfinity, calls = []\<rparr>],
        player_dash = Some \<lparr>mediaPlayer = Some 0\<rparr>, player_children = [], triggered = [],
        tech_isReady = True, warnings = []\<rparr> = Inr PosInfinity"
  by (simp add: getDuration_def manifest_has_duration_def duration_def)

text \<open>
  C3 (amended): on an adapter that has its engine, \<open>duration()\<close> returns \<open>Infinity\<close>
  whenever the engine reports a dynamic stream and the finite-duration flag is unset,
  and the engine-reported duration otherwise. For every sequence of MANIFEST_LOADED
  events whose manifests the listener can read (a truthy \<open>mediaPresentationDuration\<close>,
  or a last period), the flag after each event is true exactly when the manifest's
  \<open>mediaPresentationDuration\<close> or its last period's \<open>duration\<close> is truthy (present and
  not zero), and \<open>durationchange\<close> is fired exactly once for each event that changes the
  flag and not at all for an event that leaves it as it was.
\<close>

theorem duration_flag:
  "(this_mediaPlayer this = Some mp \<and> mp < length (engines w) \<longrightarrow>
      duration this w =
        Inr (if isDynamic (engines w ! mp) \<and> \<not> this_hasFiniteDuration this then PosInfinity
             else engine_duration (engines w ! mp)))
   \<and> (readable m \<longrightarrow>
      getDuration m (this, w) =
        Inr (this\<lparr>this_hasFiniteDuration := has_duration m\<rparr>,
             w\<lparr>triggered := triggered w @
                  (if has_duration m \<noteq> this_hasFiniteDuration this then [''durationchange'']
                   else [])\<rparr>))
   \<and> ((\<forall>m \<in> set ms. readable m) \<longrightarrow>
      manifests_loaded ms (this, w) =
        Inr (this\<lparr>this_hasFiniteDuration :=
                    last (this_hasFiniteDuration this # map has_duration ms)\<rparr>,
             w\<lparr>triggered := triggered w @
                  replicate (flips (this_hasFiniteDuration this) (map has_duration ms))
                    ''durationchange''\<rparr>))"
  using duration_engine [of this mp w] getDuration_readable [of m this w]
    manifests_loaded_readable [of ms this w]
  by blast

theorem duration_flag_witness:
  "duration
     \<lparr>this_player = True, this_hasFiniteDuration = False, this_mediaPlayer = Some 0,
      this_keySystemOptions = HNull, this_ttmlContainer = False, effective_source = None\<rparr>
     \<lparr>heap = [], engines = [\<lparr>isDynamic = True, engine_duration = Fin 30, calls = []\<rparr>],
      player_dash = None, player_children = [], triggered = [], tech_isReady = True,
      warnings = []\<rparr> = Inr PosInfinity
   \<and> manifests_loaded
       [\<lparr>mediaPresentationDuration = JNum 600, Period_asArray = [JObj []]\<rparr>,
        \<lparr>mediaPresentationDuration = JNum 600, Period_asArray = [JObj []]\<rparr>,
        \<lparr>mediaPresentationDuration = JUndefined, Period_asArray = [JObj []]\<rparr>,
        \<lparr>mediaPresentationDuration = JUndefined,
         Period_asArray = [JObj [], JObj [(''duration'', JNum 20)]]\<rparr>]
       (\<lparr>this_player = True, this_hasFiniteDuration = False, this_mediaPlayer = Some 0,
         this_keySystemOptions = HNull, this_ttmlContainer = False, effective_source = None\<rparr>,
        \<lparr>heap = [], engines = [\<lparr>isDynamic = True, engine_duration = Fin 30, calls = []\<rparr>],
         player_dash = None, player_children = [], triggered = [], tech_isReady = True,
         warnings = []\<rparr>) =
     Inr (\<lparr>this_player = True, this_hasFiniteDuration = True, this_mediaPlayer = Some 0,
           this_keySystemOptions = HNull, this_ttmlContainer = False, effective_source = None\<rparr>,
          \<lparr>heap = [], engines = [\<lparr>isDynamic = True, engine_duration = Fin 30, calls = []\<rparr>],
           player_dash = None, player_children = [],
           triggered = [''durationchange'', ''durationchange'', ''durationchange''],
           tech_isReady = True, warnings = []\<rparr>)"
proof -
  let ?ad = "\<lparr>this_player = True, this_hasFiniteDuration = False, this_mediaPlayer = Some 0,
      this_keySystemOptions = HNull, this_ttmlContainer = False, effective_source = None\<rparr>"
  let ?w = "\<lparr>heap = [], engines = [\<lparr>isDynamic = True, engine_duration = Fin 30, calls = []\<rparr>],
      player_dash = None, player_children = [], triggered = [], tech_isReady = True,
      warnings = []\<rparr>"
  let ?ms = "[\<lparr>mediaPresentationDuration = JNum 600, Period_asArray = [JObj []]\<rparr>,
        \<lparr>mediaPresentationDuration = JNum 600, Period_asArray = [JObj []]\<rparr>,
        \<lparr>mediaPresentationDuration = JUndefined, Period_asArray = [JObj []]\<rparr>,
        \<lparr>mediaPresentationDuration = JUndefined,
         Period_asArray = [JObj [], JObj [(''duration'', JNum 20)]]\<rparr>]"
  note t = duration_flag [of ?ad 0 ?w _ ?ms]
  have r: "\<forall>m \<in> set ?ms. readable m" by (simp add: readable_def)
  have f: "map has_duration ?ms = [True, True, False, True]"
    by (simp add: has_duration_def period_duration_def)
  have a: "duration ?ad ?w = Inr PosInfinity"
    using t by simp
  have b: "manifests_loaded ?ms (?ad, ?w) =
      Inr (?ad\<lparr>this_hasFiniteDuration := last (this_hasFiniteDuration ?ad # map has_duration ?ms)\<rparr>,
           ?w\<lparr>triggered := triggered ?w @
                replicate (flips (this_hasFiniteDuration ?ad) (map has_duration ?ms))
                  ''durationchange''\<rparr>)"
    using t r by blast
  show ?thesis
    unfolding b f using a by (simp add: numeral_3_eq_3)
qed

section \<open>Properties of the \<open>updatesource\<close> hooks\<close>

lemma hooks_registry_hook:
  "hooks_registry (hook t hk st) t = hooks_registry st t @ hk"
  by (simp add: hook_def hooks_def Let_def)

lemma hooks_registry_hook_other:
  "t' \<noteq> t \<Longrightarrow> hooks_registry (hook t hk st) t' = hooks_registry st t'"
  by (simp add: hook_def hooks_def Let_def)

lemma updateSourceData_hook [simp]: "updateSourceData (hook t hk st) = updateSourceData st"
  by (simp add: hook_def hooks_def Let_def)

lemma hooks_lookup: "fst (hooks t [] st) = hooks_registry st t"
  by (simp add: hooks_def Let_def)

lemma run_hooks_append:
  "run_hooks (fs @ gs) s h = (case run_hooks fs s h of (s', h') \<Rightarrow> run_hooks gs s' h')"
  by (induction fs arbitrary: s h) (simp_all split: prod.splits)

lemma run_hooks_snoc:
  "run_hooks (fs @ [g]) s h = (case run_hooks fs s h of (s', h') \<Rightarrow> g s' h')"
  by (simp add: run_hooks_append split: prod.splits)

lemma update_source_updated:
  "fst (update_source st source w) = fst (updated st source (heap w)) \<and>
   heap (snd (update_source st source w)) = snd (updated st source (heap w)) \<and>
   engines (snd (update_source st source w)) = engines w"
  by (simp add: update_source_def updated_def hooks_lookup split: option.splits prod.splits)

lemma get_field_Inr: "get_field h v k = Inr x \<Longrightarrow> x = field_of h v k"
  by (cases v) (auto simp: get_field_def field_of_def)

lemma Html5DashJS_Inr:
  assumes "get_field (heap w) source ''src'' = Inr src" and "truthy_h src"
    and "Html5DashJS mo st opts source w = (Inr this, w')"
  shows "effective_source this = Some (fst (updated st source (heap w))) \<and>
     heap w' =
       snd (buildDashJSProtData mo
              (field_of (snd (updated st source (heap w))) (fst (updated st source (heap w)))
                 ''keySystemOptions'')
              (snd (updated st source (heap w))))"
proof -
  let ?w1 = "w\<lparr>player_dash :=
      (case player_dash w of None \<Rightarrow> Some \<lparr>mediaPlayer = None\<rparr> | Some d \<Rightarrow> Some d),
      tech_isReady := False\<rparr>"
  obtain s2 w2 where u: "update_source st source ?w1 = (s2, w2)"
    by (cases "update_source st source ?w1")
  have s2: "s2 = fst (updated st source (heap w))" and h2: "heap w2 = snd (updated st source (heap w))"
    using update_source_updated [of st source ?w1] u by simp_all
  show ?thesis
    using assms u s2 h2
    by (auto simp: Html5DashJS_def Let_def dest!: get_field_Inr split: sum.splits prod.splits)
qed

lemma update_absent: "k \<notin> fst ` set fs \<Longrightarrow> AList.update k v fs = fs @ [(k, v)]"
  by (induction fs) auto

lemma two_markers:
  assumes "cell h a = Some (HObj fs)" and "m1 \<notin> fst ` set fs" and "m2 \<notin> fst ` set fs"
    and "m1 \<noteq> m2"
  shows "run_hooks [add_marker m1 v1, add_marker m2 v2] (HRef a) h =
     (HRef a, h[a := HObj (fs @ [(m1, v1), (m2, v2)])])"
proof -
  have a: "a < length h" using assms(1) by (simp add: cell_def split: if_splits)
  have 1: "set_field a m1 v1 h = h[a := HObj (fs @ [(m1, v1)])]"
    using assms(1,2) by (simp add: set_field_def update_absent)
  have "cell (h[a := HObj (fs @ [(m1, v1)])]) a = Some (HObj (fs @ [(m1, v1)]))"
    using a by (simp add: cell_def)
  moreover have "m2 \<notin> fst ` set (fs @ [(m1, v1)])" using assms(3,4) by auto
  ultimately have 2: "set_field a m2 v2 (h[a := HObj (fs @ [(m1, v1)])]) =
      h[a := HObj (fs @ [(m1, v1), (m2, v2)])]"
    by (simp add: set_field_def update_absent)
  show ?thesis by (simp add: add_marker_def 1 2)
qed


lemma cell_take_eq:
  assumes "take (length h) h' = h" and "a < length h"
  shows "cell h' a = cell h a"
proof -
  have "length (take (length h) h') = length h" using assms(1) by simp
  then have "length h \<le> length h'" by simp
  moreover have "h' ! a = h ! a" using assms by (metis nth_take)
  ultimately show ?thesis using assms(2) by (simp add: cell_def)
qed

lemma two_marker_hooks_registry:
  "hooks_registry two_marker_hooks ''updatesource'' =
     [add_marker ''first'' (HNum 1), add_marker ''second'' (HNum 2)]"
  "updateSourceData two_marker_hooks = None"
  by (simp_all add: two_marker_hooks_def hooks_registry_hook)

lemmas adapter_eval = Html5DashJS_def update_source_def hooks_def hook_def add_marker_def
  created_engine_def setup_calls_def two_marker_hooks_def

text \<open>
  C4, as the claim states it, fails for a source without a \<open>src\<close>: the constructor
  returns before the hooks are called. With the two marker hooks registered and the
  source \<open>{src: ''}\<close>, construction ends with the source as it was, no marker set.
\<close>

theorem updatesource_hooks_counterexample:
  "Html5DashJS shallow_merge two_marker_hooks \<lparr>useTTML = False\<rparr> (HRef 0)
     \<lparr>heap = [HObj [(''src'', HStr [])]], engines = [], player_dash = None,
      player_children = [], triggered = [], tech_isReady = True, warnings = []\<rparr> =
   (Inr \<lparr>this_player = True, this_hasFiniteDuration = False, this_mediaPlayer = None,
         this_keySystemOptions = HUndefined, this_ttmlContainer = False,
         effective_source = None\<rparr>,
    \<lparr>heap = [HObj [(''src'', HStr [])]], engines = [],
     player_dash = Some \<lparr>mediaPlayer = None\<rparr>, player_children = [], triggered = [],
     tech_isReady = True, warnings = []\<rparr>)"
  by (simp add: Html5DashJS_def get_field_def own_fields_def cell_def)

text \<open>
  C4 (amended): for every source whose \<open>src\<close> is truthy and every registry, a
  construction that completes has applied the deprecated \<open>updateSourceData\<close> (when one
  is installed) and then the \<open>updatesource\<close> hooks to the source, in registration
  order: a hook registered later is behind those registered before, and each hook
  receives the source the hook before it returned. With two hooks that each set a
  marker property that the source does not have yet, the source object carries, after
  construction, its own properties followed by the first marker and then the second.
\<close>

theorem updatesource_hooks_in_order:
  assumes "get_field (heap w) source ''src'' = Inr src" and "truthy_h src" and "copies mo"
    and "Html5DashJS mo st opts source w = (Inr this, w')"
  shows "effective_source this = Some (fst (updated st source (heap w)))
    \<and> (updateSourceData st = None \<longrightarrow>
         effective_source this =
           Some (fst (run_hooks (hooks_registry st ''updatesource'') source (heap w))))
    \<and> run_hooks (fs @ [g]) s h = (case run_hooks fs s h of (s', h') \<Rightarrow> g s' h')
    \<and> hooks_registry (hook ''updatesource'' [g] st) ''updatesource'' =
         hooks_registry st ''updatesource'' @ [g]
    \<and> (updateSourceData st = None \<and>
       hooks_registry st ''updatesource'' = [add_marker m1 v1, add_marker m2 v2] \<and>
       source = HRef a \<and> cell (heap w) a = Some (HObj props) \<and>
       m1 \<notin> fst ` set props \<and> m2 \<notin> fst ` set props \<and> m1 \<noteq> m2 \<longrightarrow>
         effective_source this = Some (HRef a) \<and>
         own_fields (heap w') (HRef a) = props @ [(m1, v1), (m2, v2)])"
proof -
  note r = Html5DashJS_Inr [OF assms(1,2,4)]
  have eff: "effective_source this = Some (fst (updated st source (heap w)))"
    using r by simp
  have plain: "effective_source this =
      Some (fst (run_hooks (hooks_registry st ''updatesource'') source (heap w)))"
    if "updateSourceData st = None"
    using eff that by (simp add: updated_def)
  have markers: "effective_source this = Some (HRef a) \<and>
         own_fields (heap w') (HRef a) = props @ [(m1, v1), (m2, v2)]"
    if m: "updateSourceData st = None"
      "hooks_registry st ''updatesource'' = [add_marker m1 v1, add_marker m2 v2]"
      "source = HRef a" "cell (heap w) a = Some (HObj props)"
      "m1 \<notin> fst ` set props" "m2 \<notin> fst ` set props" "m1 \<noteq> m2"
  proof -
    let ?h2 = "(heap w)[a := HObj (props @ [(m1, v1), (m2, v2)])]"
    have u: "updated st source (heap w) = (HRef a, ?h2)"
      using m(1,2,3) two_markers [OF m(4,5,6,7)] by (simp add: updated_def)
    have a: "a < length ?h2" using m(4) by (simp add: cell_def split: if_splits)
    from r u obtain kso where hw: "heap w' = snd (buildDashJSProtData mo kso ?h2)" by simp
    have "take (length ?h2) (heap w') = ?h2"
      unfolding hw by (rule buildDashJSProtData_frame [OF assms(3)])
    then have "cell (heap w') a = cell ?h2 a" using a by (rule cell_take_eq)
    also have "\<dots> = Some (HObj (props @ [(m1, v1), (m2, v2)]))"
      using a by (simp add: cell_def)
    finally have "own_fields (heap w') (HRef a) = props @ [(m1, v1), (m2, v2)]"
      by (simp add: own_fields_def)
    then show ?thesis using eff u by simp
  qed
  show ?thesis
    using eff plain markers run_hooks_snoc [of fs g s h] hooks_registry_hook [of "''updatesource''" "[g]" st]
    by blast
qed

theorem updatesource_hooks_in_order_witness:
  "(case Html5DashJS shallow_merge two_marker_hooks \<lparr>useTTML = False\<rparr> (HRef 0)
           \<lparr>heap = [HObj [(''src'', HStr ''https://example.com/dash.mpd'')]], engines = [],
            player_dash = None, player_children = [], triggered = [], tech_isReady = True,
            warnings = []\<rparr> of
      (Inl e, w') \<Rightarrow> False
    | (Inr this, w') \<Rightarrow>
        effective_source this = Some (HRef 0) \<and>
        own_fields (heap w') (HRef 0) =
          [(''src'', HStr ''https://example.com/dash.mpd''), (''first'', HNum 1),
           (''second'', HNum 2)])"
proof -
  let ?w = "\<lparr>heap = [HObj [(''src'', HStr ''https://example.com/dash.mpd'')]], engines = [],
            player_dash = None, player_children = [], triggered = [], tech_isReady = True,
            warnings = []\<rparr>"
  let ?ad = "\<lparr>this_player = True, this_hasFiniteDuration = False,
         this_mediaPlayer = Some 0, this_keySystemOptions = HNull,
         this_ttmlContainer = False, effective_source = Some (HRef 0)\<rparr>"
  let ?w' = "\<lparr>heap =
     [HObj [(''src'', HStr ''https://example.com/dash.mpd''), (''first'', HNum 1),
            (''second'', HNum 2)],
      HObj []],
     engines =
       [\<lparr>isDynamic = False, engine_duration = NotANumber,
           calls =
             [Initialize, On ''ERROR'', On ''MANIFEST_LOADED'', AttachView,
              SetAutoPlay False, SetProtectionData HNull,
              AttachSource (HStr ''https://example.com/dash.mpd'')]\<rparr>],
     player_dash = Some \<lparr>mediaPlayer = Some 0\<rparr>, player_children = [],
     triggered = [], tech_isReady = True, warnings = []\<rparr>"
  have run: "Html5DashJS shallow_merge two_marker_hooks \<lparr>useTTML = False\<rparr> (HRef 0) ?w =
      (Inr ?ad, ?w')"
    by (simp add: adapter_eval heap_eval)
  have src: "get_field (heap ?w) (HRef 0) ''src'' = Inr (HStr ''https://example.com/dash.mpd'')"
    by (simp add: get_field_def own_fields_def cell_def)
  have tr: "truthy_h (HStr ''https://example.com/dash.mpd'')" by simp
  have c: "cell (heap ?w) 0 = Some (HObj [(''src'', HStr ''https://example.com/dash.mpd'')])"
    by (simp add: cell_def)
  note t = updatesource_hooks_in_order [OF src tr copies_shallow_merge run,
      of _ _ _ _ "''first''" "HNum 1" "''second''" "HNum 2" 0
         "[(''src'', HStr ''https://example.com/dash.mpd'')]"]
  have "effective_source ?ad = Some (HRef 0) \<and>
        own_fields (heap ?w') (HRef 0) =
          [(''src'', HStr ''https://example.com/dash.mpd'')] @
          [(''first'', HNum 1), (''second'', HNum 2)]"
    using t c two_marker_hooks_registry by simp
  then show ?thesis unfolding run by simp
qed

section \<open>Properties of the source-handler probe\<close>

lemma fresh_val_simps [simp]:
  "fresh_val n (HRef a) = (n \<le> a)" "fresh_val n HUndefined" "fresh_val n HNull"
  "fresh_val n (HBool b)" "fresh_val n (HNum i)" "fresh_val n (HStr s)"
  by (simp_all add: fresh_val_def)

lemma fresh_obj_simps [simp]:
  "fresh_obj n (HObj fs) = list_all (\<lambda>p. fresh_val n (snd p)) fs"
  "fresh_obj n (HArr xs) = list_all (fresh_val n) xs"
  by (simp_all add: fresh_obj_def)

lemma parse_fresh:
  "n \<le> length h \<Longrightarrow> parse j h = (v, h') \<Longrightarrow>
     \<exists>ext. h' = h @ ext \<and> fresh_val n v \<and> list_all (fresh_obj n) ext"
  "n \<le> length h \<Longrightarrow> parse_fields fs h = (fs', h') \<Longrightarrow>
     \<exists>ext. h' = h @ ext \<and> list_all (\<lambda>p. fresh_val n (snd p)) fs' \<and> list_all (fresh_obj n) ext"
  "n \<le> length h \<Longrightarrow> parse_elems xs h = (xs', h') \<Longrightarrow>
     \<exists>ext. h' = h @ ext \<and> list_all (fresh_val n) xs' \<and> list_all (fresh_obj n) ext"
proof (induction j h and fs h and xs h arbitrary: v h' and fs' h' and xs' h'
    rule: parse_parse_fields_parse_elems.induct)
  case (6 fs h)
  obtain fs1 h1 where p: "parse_fields fs h = (fs1, h1)" by (cases "parse_fields fs h")
  from 6(1) [OF 6(2) p] obtain ext where e: "h1 = h @ ext"
    "list_all (\<lambda>p. fresh_val n (snd p)) fs1" "list_all (fresh_obj n) ext" by blast
  have "v = HRef (length h1)" "h' = h1 @ [HObj fs1]" using 6(3) p by simp_all
  then show ?case using e 6(2) by simp
next
  case (7 xs h)
  obtain xs1 h1 where p: "parse_elems xs h = (xs1, h1)" by (cases "parse_elems xs h")
  from 7(1) [OF 7(2) p] obtain ext where e: "h1 = h @ ext"
    "list_all (fresh_val n) xs1" "list_all (fresh_obj n) ext" by blast
  have "v = HRef (length h1)" "h' = h1 @ [HArr xs1]" using 7(3) p by simp_all
  then show ?case using e 7(2) by simp
next
  case (9 p rest h)
  obtain v1 h1 where a: "parse (snd p) h = (v1, h1)" by (cases "parse (snd p) h")
  obtain rest1 h2 where b: "parse_fields rest h1 = (rest1, h2)" by (cases "parse_fields rest h1")
  from 9(1) [OF 9(3) a] obtain e1 where e1: "h1 = h @ e1" "fresh_val n v1"
    "list_all (fresh_obj n) e1" by blast
  have "n \<le> length h1" using e1(1) 9(3) by simp
  from 9(2) [OF a [symmetric] this b] obtain e2 where e2: "h2 = h1 @ e2"
    "list_all (\<lambda>p. fresh_val n (snd p)) rest1" "list_all (fresh_obj n) e2" by blast
  have "fs' = (fst p, v1) # rest1" "h' = h2" using 9(4) a b by simp_all
  then show ?case using e1 e2 by simp
next
  case (11 j rest h)
  obtain v1 h1 where a: "parse j h = (v1, h1)" by (cases "parse j h")
  obtain rest1 h2 where b: "parse_elems rest h1 = (rest1, h2)" by (cases "parse_elems rest h1")
  from 11(1) [OF 11(3) a] obtain e1 where e1: "h1 = h @ e1" "fresh_val n v1"
    "list_all (fresh_obj n) e1" by blast
  have "n \<le> length h1" using e1(1) 11(3) by simp
  from 11(2) [OF a [symmetric] this b] obtain e2 where e2: "h2 = h1 @ e2"
    "list_all (fresh_val n) rest1" "list_all (fresh_obj n) e2" by blast
  have "xs' = v1 # rest1" "h' = h2" using 11(4) a b by simp_all
  then show ?case using e1 e2 by simp
qed auto


lemma json_copy_on_copy:
  assumes "json_copy source h = (Inr c, h1)"
  shows "on_copy h c h1"
proof -
  from assms obtain j where "parse j h = (c, h1)"
    by (auto simp: json_copy_def split: sum.splits if_splits prod.splits)
  from parse_fresh(1) [OF le_refl this] obtain ext where
    "h1 = h @ ext" "fresh_val (length h) c" "list_all (fresh_obj (length h)) ext" by blast
  then show ?thesis by (simp add: on_copy_def region_closed_def)
qed

lemma json_copy_error:
  "json_copy source h = (Inl e, h1) \<Longrightarrow> h1 = h"
  by (auto simp: json_copy_def split: sum.splits if_splits prod.splits)

lemma confined_step:
  assumes "confined (length h0) f" and "on_copy h0 v h" and "f v h = (v', h')"
  shows "on_copy h0 v' h'"
  using assms unfolding confined_def on_copy_def by fastforce

lemma run_hooks_on_copy:
  assumes "\<forall>f \<in> set fs. confined (length h0) f" and "on_copy h0 v h"
    and "run_hooks fs v h = (v', h')"
  shows "on_copy h0 v' h'"
  using assms
proof (induction fs arbitrary: v h)
  case Nil
  then show ?case by simp
next
  case (Cons f fs)
  obtain v1 h1 where f: "f v h = (v1, h1)" by (cases "f v h")
  have "confined (length h0) f" using Cons.prems(1) by simp
  then have "on_copy h0 v1 h1"
    using Cons.prems(2) f by (rule confined_step)
  moreover have "run_hooks fs v1 h1 = (v', h')" using Cons.prems(3) f by simp
  ultimately show ?case using Cons.IH Cons.prems(1) by simp
qed

lemma updated_on_copy:
  assumes hooks: "\<forall>f \<in> set (hooks_registry st ''updatesource''). confined (length h0) f"
    and old: "\<forall>f. updateSourceData st = Some f \<longrightarrow> confined (length h0) f"
    and "on_copy h0 v h"
  shows "on_copy h0 (fst (updated st v h)) (snd (updated st v h))"
proof -
  obtain v1 h1 where a:
    "(case updateSourceData st of None \<Rightarrow> (v, h) | Some f \<Rightarrow> f v h) = (v1, h1)"
    by (cases "case updateSourceData st of None \<Rightarrow> (v, h) | Some f \<Rightarrow> f v h")
  have 1: "on_copy h0 v1 h1"
  proof (cases "updateSourceData st")
    case None
    then show ?thesis using a assms(3) by simp
  next
    case (Some f)
    then have "confined (length h0) f" "f v h = (v1, h1)" using a old by simp_all
    then show ?thesis using assms(3) confined_step by blast
  qed
  obtain v2 h2 where b: "run_hooks (hooks_registry st ''updatesource'') v1 h1 = (v2, h2)"
    by (cases "run_hooks (hooks_registry st ''updatesource'') v1 h1")
  have "on_copy h0 v2 h2" using run_hooks_on_copy [OF hooks 1 b] .
  then show ?thesis using a b by (simp add: updated_def)
qed

lemma canHandleKeySystems_heap:
  assumes hooks: "\<forall>f \<in> set (hooks_registry st ''updatesource''). confined (length (heap w)) f"
    and old: "\<forall>f. updateSourceData st = Some f \<longrightarrow> confined (length (heap w)) f"
  shows "take (length (heap w)) (heap (snd (canHandleKeySystems st rt source w))) = heap w"
proof (cases "json_copy source (heap w)")
  case (Pair r h1)
  show ?thesis
  proof (cases r)
    case (Inl e)
    then have "h1 = heap w" using Pair json_copy_error by simp
    then show ?thesis using Pair Inl by (simp add: canHandleKeySystems_def)
  next
    case (Inr c)
    then have oc: "on_copy (heap w) c h1" using Pair json_copy_on_copy by simp
    let ?w1 = "w\<lparr>heap := h1\<rparr>"
    obtain s2 w2 where u: "update_source st c ?w1 = (s2, w2)" by (cases "update_source st c ?w1")
    have "heap w2 = snd (updated st c h1)"
      using update_source_updated [of st c ?w1] u by simp
    moreover have "on_copy (heap w) (fst (updated st c h1)) (snd (updated st c h1))"
      by (rule updated_on_copy [OF hooks old oc])
    ultimately have "take (length (heap w)) (heap w2) = heap w" by (simp add: on_copy_def)
    moreover have "heap (snd (canHandleKeySystems st rt source w)) = heap w2"
      using Pair Inr u by (simp add: canHandleKeySystems_def split: sum.splits)
    ultimately show ?thesis by simp
  qed
qed

lemma canHandleSource_world:
  "snd (canHandleSource st rt source w) = snd (canHandleKeySystems st rt source w)"
  by (simp add: canHandleSource_def split: prod.splits sum.splits)

lemma set_field_region:
  assumes "region_closed n h" and "fresh_val n v"
  shows "region_closed n (set_field a k v h)"
proof (cases "cell h a")
  case None
  then show ?thesis using assms(1) by (simp add: set_field_def)
next
  case (Some ob)
  show ?thesis
  proof (cases ob)
    case (HArr xs)
    then show ?thesis using Some assms(1) by (simp add: set_field_def)
  next
    case (HObj fs)
    have a: "a < length h" "h ! a = HObj fs"
      using Some HObj by (auto simp: cell_def split: if_splits)
    have all: "\<forall>ob \<in> set (drop n h). fresh_obj n ob"
      using assms(1) by (simp add: region_closed_def list_all_iff)
    have upd: "fresh_obj n (HObj (AList.update k v fs))" if "fresh_obj n (HObj fs)"
      using that assms(2) by (induction fs) (auto)
    have "fresh_obj n ob'" if "ob' \<in> set (drop n (h[a := HObj (AList.update k v fs)]))" for ob'
    proof -
      from that obtain i where i: "i < length h - n"
        "ob' = (h[a := HObj (AList.update k v fs)]) ! (n + i)"
        by (auto simp: in_set_conv_nth)
      show ?thesis
      proof (cases "n + i = a")
        case True
        then have "HObj fs \<in> set (drop n h)"
          using i(1) a(2) by (auto simp: in_set_conv_nth intro!: exI [of _ i])
        then have "fresh_obj n (HObj fs)" using all by blast
        then show ?thesis using upd True i a(1) by simp
      next
        case False
        then have "ob' = h ! (n + i)" using i by simp
        then have "ob' \<in> set (drop n h)"
          using i(1) by (auto simp: in_set_conv_nth intro!: exI [of _ i])
        then show ?thesis using all by blast
      qed
    qed
    then show ?thesis
      using Some HObj by (simp add: set_field_def region_closed_def list_all_iff)
  qed
qed

lemma confined_add_marker:
  assumes "\<not> is_ref v"
  shows "confined n (add_marker k v)"
proof -
  have fv: "fresh_val n v" using assms by (cases v) simp_all
  have "n \<le> length h' \<and> take n h' = take n h \<and> fresh_val n s' \<and> region_closed n h'"
    if "n \<le> length h" "fresh_val n s" "region_closed n h" "add_marker k v s h = (s', h')"
    for s h s' h'
  proof (cases s)
    case (HRef a)
    then have "s' = s" "h' = set_field a k v h" using that(4) by (simp_all add: add_marker_def)
    moreover have "n \<le> a" using that(2) HRef by simp
    ultimately show ?thesis
      using that(1,2,3) set_field_region [OF that(3) fv] by (simp add: take_set_field)
  qed (use that in \<open>auto simp: add_marker_def\<close>)
  then show ?thesis unfolding confined_def by (auto split: prod.splits)
qed


lemmas probe_eval = canHandleSource_def canHandleKeySystems_def json_copy_def canPlayType_def
  dashTypeRE_test_def dashExtRE_test_def to_lower_def update_source_def hooks_def hook_def
  add_marker_def two_marker_hooks_def get_field_def own_fields_def cell_def set_field_def

text \<open>
  C10: whatever the registered hooks (and the deprecated \<open>updateSourceData\<close>) do to the
  source they are given and to objects they make, the probe, \<open>canHandleSource\<close> through
  \<open>canHandleKeySystems\<close>, leaves every object that existed before the call as it was,
  whether it returns or throws: the hooks run on the result of
  \<open>JSON.parse(JSON.stringify(source))\<close>, which consists of new objects only, none of
  them shared with the caller's source. In particular the caller's source object has
  the properties it had.
\<close>

theorem probe_leaves_source:
  assumes "\<forall>f \<in> set (hooks_registry st ''updatesource''). confined (length (heap w)) f"
    and "\<forall>f. updateSourceData st = Some f \<longrightarrow> confined (length (heap w)) f"
  shows "take (length (heap w)) (heap (snd (canHandleSource st rt source w))) = heap w
    \<and> take (length (heap w)) (heap (snd (canHandleKeySystems st rt source w))) = heap w
    \<and> (\<forall>c h1. json_copy source (heap w) = (Inr c, h1) \<longrightarrow>
          take (length (heap w)) h1 = heap w \<and> fresh_val (length (heap w)) c \<and>
          region_closed (length (heap w)) h1)
    \<and> (valid_in (length (heap w)) source \<longrightarrow>
          own_fields (heap (snd (canHandleSource st rt source w))) source =
          own_fields (heap w) source)"
proof -
  let ?h' = "heap (snd (canHandleSource st rt source w))"
  have ks: "take (length (heap w)) (heap (snd (canHandleKeySystems st rt source w))) = heap w"
    by (rule canHandleKeySystems_heap [OF assms])
  then have hs: "take (length (heap w)) ?h' = heap w"
    by (simp add: canHandleSource_world)
  have copy: "take (length (heap w)) h1 = heap w \<and> fresh_val (length (heap w)) c \<and>
          region_closed (length (heap w)) h1" if "json_copy source (heap w) = (Inr c, h1)" for c h1
    using json_copy_on_copy [OF that] by (simp add: on_copy_def)
  have own: "own_fields ?h' source = own_fields (heap w) source"
    if "valid_in (length (heap w)) source"
  proof -
    have "length (take (length (heap w)) ?h') = length (heap w)" using hs by simp
    then have "length (heap w) \<le> length ?h'" by simp
    then show ?thesis
      using own_fields_same [OF that, of ?h' "heap w"] hs by simp
  qed
  show ?thesis using ks hs copy own by blast
qed

theorem probe_leaves_source_witness:
  "take 1 (heap (snd (canHandleSource two_marker_hooks
       \<lparr>requestMediaKeySystemAccess = True, msSetMediaKeys = False\<rparr> (HRef 0)
       \<lparr>heap = [HObj [(''src'', HStr ''https://example.com/dash.mpd'')]], engines = [],
        player_dash = None, player_children = [], triggered = [], tech_isReady = True,
        warnings = []\<rparr>))) =
     [HObj [(''src'', HStr ''https://example.com/dash.mpd'')]]
   \<and> canHandleSource two_marker_hooks
       \<lparr>requestMediaKeySystemAccess = True, msSetMediaKeys = False\<rparr> (HRef 0)
       \<lparr>heap = [HObj [(''src'', HStr ''https://example.com/dash.mpd'')]], engines = [],
        player_dash = None, player_children = [], triggered = [], tech_isReady = True,
        warnings = []\<rparr> =
     (Inr ''maybe'',
      \<lparr>heap = [HObj [(''src'', HStr ''https://example.com/dash.mpd'')],
               HObj [(''src'', HStr ''https://example.com/dash.mpd''), (''first'', HNum 1),
                     (''second'', HNum 2)]],
       engines = [], player_dash = None, player_children = [], triggered = [],
       tech_isReady = True, warnings = []\<rparr>)"
proof -
  let ?w = "\<lparr>heap = [HObj [(''src'', HStr ''https://example.com/dash.mpd'')]], engines = [],
        player_dash = None, player_children = [], triggered = [], tech_isReady = True,
        warnings = []\<rparr>"
  let ?rt = "\<lparr>requestMediaKeySystemAccess = True, msSetMediaKeys = False\<rparr>"
  have hooks: "\<forall>f \<in> set (hooks_registry two_marker_hooks ''updatesource'').
      confined (length (heap ?w)) f"
    by (simp add: two_marker_hooks_registry confined_add_marker)
  have old: "\<forall>f. updateSourceData two_marker_hooks = Some f \<longrightarrow> confined (length (heap ?w)) f"
    by (simp add: two_marker_hooks_registry)
  have a: "take (length (heap ?w)) (heap (snd (canHandleSource two_marker_hooks ?rt (HRef 0) ?w))) =
      heap ?w"
    by (rule probe_leaves_source [OF hooks old, THEN conjunct1])
  have b: "canHandleSource two_marker_hooks ?rt (HRef 0) ?w =
     (Inr ''maybe'',
      \<lparr>heap = [HObj [(''src'', HStr ''https://example.com/dash.mpd'')],
               HObj [(''src'', HStr ''https://example.com/dash.mpd''), (''first'', HNum 1),
                     (''second'', HNum 2)]],
       engines = [], player_dash = None, player_children = [], triggered = [],
       tech_isReady = True, warnings = []\<rparr>)"
    by (simp add: probe_eval)
  have "take 1 (heap (snd (canHandleSource two_marker_hooks ?rt (HRef 0) ?w))) = heap ?w"
    using a by simp
  then show ?thesis using b by simp
qed

lemma parse_truthy: "truthy_h (fst (parse j h)) = truthy j"
  by (cases j) (auto split: prod.splits)

lemma parse_fields_truthy:
  "parse_fields js h = (fs', h') \<Longrightarrow>
   truthy_h (case map_of fs' k of None \<Rightarrow> HUndefined | Some v \<Rightarrow> v) =
   truthy (case map_of js k of None \<Rightarrow> JUndefined | Some j \<Rightarrow> j)"
proof (induction js arbitrary: h fs' h')
  case Nil
  then show ?case by simp
next
  case (Cons p js)
  obtain v h1 where a: "parse (snd p) h = (v, h1)" by (cases "parse (snd p) h")
  obtain rest h2 where b: "parse_fields js h1 = (rest, h2)" by (cases "parse_fields js h1")
  have fs': "fs' = (fst p, v) # rest" using Cons.prems a b by simp
  have "truthy_h v = truthy (snd p)" using parse_truthy [of "snd p" h] a by simp
  then show ?case using Cons.IH [OF b] fs' by (cases p) simp
qed

lemma json_fields_keys:
  "json_fields f fs = Inr js \<Longrightarrow> fst ` set js \<subseteq> fst ` set fs"
proof (induction fs arbitrary: js)
  case Nil
  then show ?case by simp
next
  case (Cons p fs)
  obtain k0 v0 where p: "p = (k0, v0)" by (cases p)
  from Cons.prems p obtain j0 js0 where f: "json_fields f fs = Inr js0"
    "js = (if j0 = JUndefined then js0 else (k0, j0) # js0)"
    by (auto split: sum.splits)
  have "fst ` set js0 \<subseteq> fst ` set fs" using Cons.IH [OF f(1)] .
  then show ?case using f(2) p by (auto split: if_splits)
qed

lemma json_fields_lookup:
  assumes "distinct (map fst fs)" and "json_fields f fs = Inr js"
  shows "(map_of fs k = None \<longrightarrow> map_of js k = None) \<and>
         (\<forall>v. map_of fs k = Some v \<longrightarrow>
              f v = Inr (case map_of js k of None \<Rightarrow> JUndefined | Some j \<Rightarrow> j))"
  using assms
proof (induction fs arbitrary: js)
  case Nil
  then show ?case by simp
next
  case (Cons p fs)
  obtain k0 v0 where p: "p = (k0, v0)" by (cases p)
  from Cons.prems(2) p obtain j0 js0 where f: "f v0 = Inr j0" "json_fields f fs = Inr js0"
    "js = (if j0 = JUndefined then js0 else (k0, j0) # js0)"
    by (auto split: sum.splits)
  have d: "distinct (map fst fs)" "k0 \<notin> fst ` set fs" using Cons.prems(1) p by auto
  have "k0 \<notin> fst ` set js0" using json_fields_keys [OF f(2)] d(2) by blast
  then have none: "map_of js0 k0 = None" by (simp add: map_of_eq_None_iff)
  note ih = Cons.IH [OF d(1) f(2)]
  show ?case
  proof (cases "k = k0")
    case True
    then show ?thesis using p f none by simp
  next
    case False
    then show ?thesis using p f ih by simp
  qed
qed

lemma stringify_truthy:
  "stringify d h v = Inr j \<Longrightarrow> valid_in (length h) v \<Longrightarrow> truthy j = truthy_h v"
proof (cases v)
  case (HRef a)
  assume s: "stringify d h v = Inr j" and v: "valid_in (length h) v"
  from v HRef have "a < length h" by (simp add: valid_in_def)
  then obtain ob where c: "cell h a = Some ob" by (simp add: cell_def)
  from s HRef obtain d' where d: "d = Suc d'" by (cases d) simp_all
  show ?thesis using s HRef c d by (cases ob) (auto split: sum.splits)
qed auto

lemma json_copy_field_truthy:
  assumes c: "cell h a = Some (HObj fs)" and d: "distinct (map fst fs)" and wf: "wf_heap h"
    and j: "json_copy (HRef a) h = (Inr copy, h1)"
  shows "truthy_h (field_of h1 copy k) = truthy_h (field_of h (HRef a) k)"
proof -
  from c have a: "a < length h" by (simp add: cell_def split: if_splits)
  then obtain n where n: "length h = Suc n" by (cases "length h") simp_all
  from j n c obtain js where js: "json_fields (stringify n h) fs = Inr js"
    and p: "parse (JObj js) h = (copy, h1)"
    by (auto simp: json_copy_def split: sum.splits if_splits prod.splits)
  obtain fs' h' where pf: "parse_fields js h = (fs', h')" by (cases "parse_fields js h")
  have copy: "copy = HRef (length h')" "h1 = h' @ [HObj fs']" using p pf by simp_all
  have f1: "field_of h1 copy k = (case map_of fs' k of None \<Rightarrow> HUndefined | Some v \<Rightarrow> v)"
    using copy by (simp add: field_of_def own_fields_def cell_def)
  have f0: "field_of h (HRef a) k = (case map_of fs k of None \<Rightarrow> HUndefined | Some v \<Rightarrow> v)"
    using c by (simp add: field_of_def own_fields_def)
  note l = json_fields_lookup [OF d js, of k]
  have "truthy (case map_of js k of None \<Rightarrow> JUndefined | Some j \<Rightarrow> j) =
        truthy_h (case map_of fs k of None \<Rightarrow> HUndefined | Some v \<Rightarrow> v)"
  proof (cases "map_of fs k")
    case None
    then show ?thesis using l by simp
  next
    case (Some v)
    then have s: "stringify n h v = Inr (case map_of js k of None \<Rightarrow> JUndefined | Some j \<Rightarrow> j)"
      using l by simp
    have "valid_in (length h) (field_of h (HRef a) k)"
      using wf_heap_field [OF wf, of "HRef a" k] a by (simp add: valid_in_def)
    then have "valid_in (length h) v" using f0 Some by simp
    then show ?thesis using stringify_truthy [OF s] Some by simp
  qed
  then show ?thesis using f1 f0 parse_fields_truthy [OF pf, of k] by simp
qed

lemma json_copy_serialisable:
  assumes "serialisable h (HRef a)" and "cell h a = Some ob"
  shows "\<exists>copy h1. json_copy (HRef a) h = (Inr copy, h1)"
proof -
  from assms(2) have a: "a < length h" by (simp add: cell_def split: if_splits)
  then obtain n where n: "length h = Suc n" by (cases "length h") simp_all
  from assms(1) obtain j where j: "stringify (length h) h (HRef a) = Inr j"
    by (auto simp: serialisable_def split: sum.splits)
  have "j \<noteq> JUndefined"
    using j n assms(2) by (cases ob) (auto split: sum.splits)
  then show ?thesis using j by (simp add: json_copy_def split: prod.splits)
qed


lemma json_copy_object_ref:
  assumes "cell h a = Some (HObj fs)" and "json_copy (HRef a) h = (Inr copy, h1)"
  shows "\<exists>b. copy = HRef b"
proof -
  from assms(1) have "a < length h" by (simp add: cell_def split: if_splits)
  then obtain n where n: "length h = Suc n" by (cases "length h") simp_all
  from assms n obtain js where "parse (JObj js) h = (copy, h1)"
    by (auto simp: json_copy_def split: sum.splits if_splits prod.splits)
  then show ?thesis by (auto split: prod.splits)
qed

lemma update_source_no_hooks:
  assumes "updateSourceData st = None" and "hooks_registry st ''updatesource'' = []"
  shows "update_source st source w = (source, w)"
  using assms by (simp add: update_source_def hooks_def Let_def)

lemma canHandleSource_no_hooks:
  assumes st: "updateSourceData st = None" "hooks_registry st ''updatesource'' = []"
    and c: "cell (heap w) a = Some (HObj fs)" and d: "distinct (map fst fs)"
    and wf: "wf_heap (heap w)" and ser: "serialisable (heap w) (HRef a)"
  shows "fst (canHandleSource st rt (HRef a) w) =
     Inr (if truthy_h (field_of (heap w) (HRef a) ''keySystemOptions'') \<and>
             \<not> (requestMediaKeySystemAccess rt \<or> msSetMediaKeys rt) then []
          else if dashTypeRE_test (field_of (heap w) (HRef a) ''type'') then ''probably''
          else if dashExtRE_test (field_of (heap w) (HRef a) ''src'') then ''maybe''
          else [])"
proof -
  let ?h = "heap w"
  from json_copy_serialisable [OF ser c] obtain copy h1 where
    j: "json_copy (HRef a) ?h = (Inr copy, h1)" by blast
  from json_copy_object_ref [OF c j] obtain b where b: "copy = HRef b" by blast
  have kso: "truthy_h (field_of h1 copy ''keySystemOptions'') =
      truthy_h (field_of ?h (HRef a) ''keySystemOptions'')"
    by (rule json_copy_field_truthy [OF c d wf j])
  have oc: "on_copy ?h copy h1" by (rule json_copy_on_copy [OF j])
  have a: "valid_in (length ?h) (HRef a)"
    using c by (simp add: valid_in_def cell_def split: if_splits)
  have same: "field_of h1 (HRef a) k = field_of ?h (HRef a) k" for k
    using field_of_same [OF a, of h1 ?h k] oc by (simp add: on_copy_def)
  have g: "get_field h1 (HRef x) k = Inr (field_of h1 (HRef x) k)" for x k
    by (simp add: get_field_def field_of_def)
  let ?no_eme = "\<not> (requestMediaKeySystemAccess rt \<or> msSetMediaKeys rt)"
  have ks: "canHandleKeySystems st rt (HRef a) w =
      (Inr (\<not> (truthy_h (field_of ?h (HRef a) ''keySystemOptions'') \<and> ?no_eme)),
       w\<lparr>heap := h1\<rparr>)"
    using j b kso by (simp add: canHandleKeySystems_def update_source_no_hooks [OF st] g)
  show ?thesis
    by (simp add: canHandleSource_def ks g same canPlayType_def)
qed

lemma json_fields_error: "json_fields f fs = Inl e \<Longrightarrow> \<exists>v. f v = Inl e"
  by (induction fs) (auto split: sum.splits)

lemma json_elems_error: "json_elems f xs = Inl e \<Longrightarrow> \<exists>v. f v = Inl e"
  by (induction xs) (auto split: sum.splits)

lemma stringify_TypeError: "stringify d h v = Inl e \<Longrightarrow> e = TypeError"
proof (induction d arbitrary: v e)
  case 0
  then show ?case by (cases v) simp_all
next
  case (Suc d)
  show ?case
  proof (cases v)
    case (HRef a)
    show ?thesis
    proof (cases "cell h a")
      case None
      then show ?thesis using Suc.prems HRef by simp
    next
      case (Some ob)
      show ?thesis
      proof (cases ob)
        case (HObj fs)
        then have "json_fields (stringify d h) fs = Inl e"
          using Suc.prems HRef Some by (simp split: sum.splits)
        from json_fields_error [OF this] Suc.IH show ?thesis by blast
      next
        case (HArr xs)
        then have "json_elems (stringify d h) xs = Inl e"
          using Suc.prems HRef Some by (simp split: sum.splits)
        from json_elems_error [OF this] Suc.IH show ?thesis by blast
      qed
    qed
  qed (use Suc.prems in simp_all)
qed

lemma canHandleSource_circular:
  assumes "\<not> serialisable (heap w) source"
  shows "fst (canHandleSource st rt source w) = Inl TypeError"
proof -
  from assms obtain e where e: "stringify (length (heap w)) (heap w) source = Inl e"
    by (auto simp: serialisable_def split: sum.splits)
  then have "e = TypeError" by (rule stringify_TypeError)
  then show ?thesis
    using e by (simp add: canHandleSource_def canHandleKeySystems_def json_copy_def)
qed

lemma get_field_field_of:
  "get_field h v k = (if v = HUndefined \<or> v = HNull then Inl TypeError else Inr (field_of h v k))"
  by (cases v) (simp_all add: get_field_def field_of_def)

lemma canHandleSource_hooked:
  assumes j: "json_copy source (heap w) = (Inr copy, h1)"
    and u: "updated st copy h1 = (source', h2)" and s: "source \<noteq> HUndefined" "source \<noteq> HNull"
  shows "fst (canHandleSource st rt source w) =
     (if source' = HUndefined \<or> source' = HNull then Inl TypeError
      else Inr (if truthy_h (field_of h2 source' ''keySystemOptions'') \<and>
                   \<not> (requestMediaKeySystemAccess rt \<or> msSetMediaKeys rt) then []
                else if dashTypeRE_test (field_of h2 source ''type'') then ''probably''
                else if dashExtRE_test (field_of h2 source ''src'') then ''maybe''
                else []))"
proof -
  obtain s2 w2 where us: "update_source st copy (w\<lparr>heap := h1\<rparr>) = (s2, w2)"
    by (cases "update_source st copy (w\<lparr>heap := h1\<rparr>)")
  have s2: "s2 = source'" and w2: "heap w2 = h2"
    using update_source_updated [of st copy "w\<lparr>heap := h1\<rparr>"] us u by simp_all
  show ?thesis
    using s by (simp add: canHandleSource_def canHandleKeySystems_def j us s2 w2
        get_field_field_of canPlayType_def)
qed


text \<open>
  C9, as the claim states it, fails: \<open>/\.mpd/i\<close> is not anchored, so the probe answers
  \<open>maybe\<close> for any URL that contains \<open>.mpd\<close> somewhere. The source
  \<open>{src: 'https://example.com/video.mpd.mp4'}\<close> has no DASH type and the extension
  \<open>mp4\<close>, and the probe returns \<open>maybe\<close>, not the empty string.
\<close>

theorem canHandleSource_counterexample:
  "url_extension ''https://example.com/video.mpd.mp4'' = ''mp4''
   \<and> fst (canHandleSource \<lparr>updateSourceData = None, hooks_registry = (\<lambda>t. [])\<rparr>
        \<lparr>requestMediaKeySystemAccess = True, msSetMediaKeys = False\<rparr> (HRef 0)
        \<lparr>heap = [HObj [(''src'', HStr ''https://example.com/video.mpd.mp4'')]], engines = [],
         player_dash = None, player_children = [], triggered = [], tech_isReady = True,
         warnings = []\<rparr>) = Inr ''maybe''"
  by (simp add: url_extension_def probe_eval)

text \<open>
  C9 (amended): for every source object. A source that is circular makes the probe
  throw a TypeError (\<open>JSON.stringify\<close>). Otherwise the probe makes its key-system test
  on \<open>source'\<close>, the JSON copy of the source as \<open>updateSourceData\<close>, when installed, and
  the registered \<open>updatesource\<close> hooks, applied in the order of their registration,
  return it: it throws a TypeError when \<open>source'\<close> is \<open>undefined\<close> or \<open>null\<close>; it returns
  \<open>''\<close> when \<open>source'.keySystemOptions\<close> is truthy and the runtime has neither
  \<open>requestMediaKeySystemAccess\<close> nor \<open>msSetMediaKeys\<close>; otherwise \<open>probably\<close> when the
  type of the caller's source starts with \<open>application/dash+xml\<close> (letters compared
  without case); otherwise \<open>maybe\<close> when its URL contains \<open>.mpd\<close> anywhere (again without
  case); otherwise \<open>''\<close>. Every property of the JSON copy is truthy exactly when that of
  the source is; the type and the URL, read from the caller's source after the hooks
  have run, are those it had before the call when the hooks touch nothing but their
  argument and objects they make. So with no hook and no \<open>updateSourceData\<close> installed
  the probe returns \<open>''\<close> whenever the source's own \<open>keySystemOptions\<close> is truthy and the
  runtime has no encrypted-media capability, and otherwise answers by the type and the
  URL as above.
\<close>

theorem canHandleSource_confidence:
  assumes "cell (heap w) a = Some (HObj fs)" and "distinct (map fst fs)"
    and "wf_heap (heap w)"
  shows "(\<not> serialisable (heap w) (HRef a) \<longrightarrow>
        fst (canHandleSource st rt (HRef a) w) = Inl TypeError)
    \<and> (serialisable (heap w) (HRef a) \<longrightarrow>
        (\<exists>copy h1 source' h2.
           json_copy (HRef a) (heap w) = (Inr copy, h1) \<and>
           updated st copy h1 = (source', h2) \<and>
           fst (canHandleSource st rt (HRef a) w) =
             (if source' = HUndefined \<or> source' = HNull then Inl TypeError
              else Inr (if truthy_h (field_of h2 source' ''keySystemOptions'') \<and>
                           \<not> (requestMediaKeySystemAccess rt \<or> msSetMediaKeys rt) then []
                        else if dashTypeRE_test (field_of h2 (HRef a) ''type'') then ''probably''
                        else if dashExtRE_test (field_of h2 (HRef a) ''src'') then ''maybe''
                        else [])) \<and>
           (\<forall>k. truthy_h (field_of h1 copy k) = truthy_h (field_of (heap w) (HRef a) k)) \<and>
           ((\<forall>f \<in> set (hooks_registry st ''updatesource''). confined (length (heap w)) f) \<and>
            (\<forall>f. updateSourceData st = Some f \<longrightarrow> confined (length (heap w)) f) \<longrightarrow>
              (\<forall>k. field_of h2 (HRef a) k = field_of (heap w) (HRef a) k))))
    \<and> (serialisable (heap w) (HRef a) \<and> updateSourceData st = None \<and>
        hooks_registry st ''updatesource'' = [] \<longrightarrow>
        fst (canHandleSource st rt (HRef a) w) =
          Inr (if truthy_h (field_of (heap w) (HRef a) ''keySystemOptions'') \<and>
                  \<not> (requestMediaKeySystemAccess rt \<or> msSetMediaKeys rt) then []
               else if dashTypeRE_test (field_of (heap w) (HRef a) ''type'') then ''probably''
               else if dashExtRE_test (field_of (heap w) (HRef a) ''src'') then ''maybe''
               else []))
    \<and> dashTypeRE_test (HStr type) = starts_with (map to_lower type) ''application/dash+xml''
    \<and> dashExtRE_test (HStr src) = contains_str (map to_lower src) ''.mpd''"
proof -
  let ?h = "heap w"
  have circular: "fst (canHandleSource st rt (HRef a) w) = Inl TypeError"
    if "\<not> serialisable ?h (HRef a)"
    using that by (rule canHandleSource_circular)
  have hooked: "\<exists>copy h1 source' h2.
           json_copy (HRef a) ?h = (Inr copy, h1) \<and>
           updated st copy h1 = (source', h2) \<and>
           fst (canHandleSource st rt (HRef a) w) =
             (if source' = HUndefined \<or> source' = HNull then Inl TypeError
              else Inr (if truthy_h (field_of h2 source' ''keySystemOptions'') \<and>
                           \<not> (requestMediaKeySystemAccess rt \<or> msSetMediaKeys rt) then []
                        else if dashTypeRE_test (field_of h2 (HRef a) ''type'') then ''probably''
                        else if dashExtRE_test (field_of h2 (HRef a) ''src'') then ''maybe''
                        else [])) \<and>
           (\<forall>k. truthy_h (field_of h1 copy k) = truthy_h (field_of ?h (HRef a) k)) \<and>
           ((\<forall>f \<in> set (hooks_registry st ''updatesource''). confined (length ?h) f) \<and>
            (\<forall>f. updateSourceData st = Some f \<longrightarrow> confined (length ?h) f) \<longrightarrow>
              (\<forall>k. field_of h2 (HRef a) k = field_of ?h (HRef a) k))"
    if ser: "serialisable ?h (HRef a)"
  proof -
    from json_copy_serialisable [OF ser assms(1)] obtain copy h1 where
      j: "json_copy (HRef a) ?h = (Inr copy, h1)" by blast
    obtain source' h2 where u: "updated st copy h1 = (source', h2)"
      by (cases "updated st copy h1")
    have r: "fst (canHandleSource st rt (HRef a) w) =
             (if source' = HUndefined \<or> source' = HNull then Inl TypeError
              else Inr (if truthy_h (field_of h2 source' ''keySystemOptions'') \<and>
                           \<not> (requestMediaKeySystemAccess rt \<or> msSetMediaKeys rt) then []
                        else if dashTypeRE_test (field_of h2 (HRef a) ''type'') then ''probably''
                        else if dashExtRE_test (field_of h2 (HRef a) ''src'') then ''maybe''
                        else []))"
      by (rule canHandleSource_hooked [OF j u]) simp_all
    have t: "truthy_h (field_of h1 copy k) = truthy_h (field_of ?h (HRef a) k)" for k
      by (rule json_copy_field_truthy [OF assms(1,2,3) j])
    have f: "field_of h2 (HRef a) k = field_of ?h (HRef a) k"
      if hooks: "\<forall>f \<in> set (hooks_registry st ''updatesource''). confined (length ?h) f"
        and old: "\<forall>f. updateSourceData st = Some f \<longrightarrow> confined (length ?h) f" for k
    proof -
      have "on_copy ?h (fst (updated st copy h1)) (snd (updated st copy h1))"
        by (rule updated_on_copy [OF hooks old json_copy_on_copy [OF j]])
      then have oc: "length ?h \<le> length h2" "take (length ?h) h2 = ?h"
        using u by (simp_all add: on_copy_def)
      have a: "valid_in (length ?h) (HRef a)"
        using assms(1) by (simp add: valid_in_def cell_def split: if_splits)
      show ?thesis using field_of_same [OF a, of h2 ?h k] oc by simp
    qed
    show ?thesis using j u r t f by blast
  qed
  have plain: "fst (canHandleSource st rt (HRef a) w) =
          Inr (if truthy_h (field_of ?h (HRef a) ''keySystemOptions'') \<and>
                  \<not> (requestMediaKeySystemAccess rt \<or> msSetMediaKeys rt) then []
               else if dashTypeRE_test (field_of ?h (HRef a) ''type'') then ''probably''
               else if dashExtRE_test (field_of ?h (HRef a) ''src'') then ''maybe''
               else [])"
    if "serialisable ?h (HRef a)" "updateSourceData st = None"
      "hooks_registry st ''updatesource'' = []"
    by (rule canHandleSource_no_hooks [OF that(2,3) assms(1,2,3) that(1)])
  have re: "dashTypeRE_test (HStr type) = starts_with (map to_lower type) ''application/dash+xml''"
    "dashExtRE_test (HStr src) = contains_str (map to_lower src) ''.mpd''"
    by (simp_all add: dashTypeRE_test_def dashExtRE_test_def)
  show ?thesis using circular hooked plain re by blast
qed


theorem canHandleSource_confidence_witness:
  "fst (canHandleSource \<lparr>updateSourceData = None, hooks_registry = (\<lambda>t. [])\<rparr>
        \<lparr>requestMediaKeySystemAccess = False, msSetMediaKeys = False\<rparr> (HRef 0)
        \<lparr>heap = [HObj [(''src'', HStr ''https://example.com/dash.mpd''),
                        (''type'', HStr ''application/dash+xml''),
                        (''keySystemOptions'', HRef 1)],
                  HArr []],
         engines = [], player_dash = None, player_children = [], triggered = [],
         tech_isReady = True, warnings = []\<rparr>) = Inr []
   \<and> fst (canHandleSource
        (hook ''updatesource'' [add_marker ''keySystemOptions'' HNull]
           \<lparr>updateSourceData = None, hooks_registry = (\<lambda>t. [])\<rparr>)
        \<lparr>requestMediaKeySystemAccess = False, msSetMediaKeys = False\<rparr> (HRef 0)
        \<lparr>heap = [HObj [(''src'', HStr ''https://example.com/dash.mpd''),
                        (''type'', HStr ''application/dash+xml''),
                        (''keySystemOptions'', HRef 1)],
                  HArr []],
         engines = [], player_dash = None, player_children = [], triggered = [],
         tech_isReady = True, warnings = []\<rparr>) = Inr ''probably''
   \<and> fst (canHandleSource \<lparr>updateSourceData = None, hooks_registry = (\<lambda>t. [])\<rparr>
        \<lparr>requestMediaKeySystemAccess = False, msSetMediaKeys = False\<rparr> (HRef 0)
        \<lparr>heap = [HObj [(''src'', HStr ''https://example.com/dash.mpd''),
                        (''type'', HStr ''Application/DASH+xml; codecs=avc1'')]],
         engines = [], player_dash = None, player_children = [], triggered = [],
         tech_isReady = True, warnings = []\<rparr>) = Inr ''probably''
   \<and> fst (canHandleSource \<lparr>updateSourceData = None, hooks_registry = (\<lambda>t. [])\<rparr>
        \<lparr>requestMediaKeySystemAccess = False, msSetMediaKeys = False\<rparr> (HRef 0)
        \<lparr>heap = [HObj [(''src'', HStr ''https://example.com/dash.mpd''), (''self'', HRef 0)]],
         engines = [], player_dash = None, player_children = [], triggered = [],
         tech_isReady = True, warnings = []\<rparr>) = Inl TypeError"
proof -
  let ?st = "\<lparr>updateSourceData = None, hooks_registry = (\<lambda>t. [])\<rparr>"
  let ?hooked = "hook ''updatesource'' [add_marker ''keySystemOptions'' HNull] ?st"
  let ?rt = "\<lparr>requestMediaKeySystemAccess = False, msSetMediaKeys = False\<rparr>"
  let ?fs1 = "[(''src'', HStr ''https://example.com/dash.mpd''),
               (''type'', HStr ''application/dash+xml''), (''keySystemOptions'', HRef 1)]"
  let ?w1 = "\<lparr>heap = [HObj ?fs1, HArr []],
         engines = [], player_dash = None, player_children = [], triggered = [],
         tech_isReady = True, warnings = []\<rparr>"
  let ?fs2 = "[(''src'', HStr ''https://example.com/dash.mpd''),
               (''type'', HStr ''Application/DASH+xml; codecs=avc1'')]"
  let ?w2 = "\<lparr>heap = [HObj ?fs2],
         engines = [], player_dash = None, player_children = [], triggered = [],
         tech_isReady = True, warnings = []\<rparr>"
  let ?fs3 = "[(''src'', HStr ''https://example.com/dash.mpd''), (''self'', HRef 0)]"
  let ?w3 = "\<lparr>heap = [HObj ?fs3],
         engines = [], player_dash = None, player_children = [], triggered = [],
         tech_isReady = True, warnings = []\<rparr>"
  have a: "fst (canHandleSource ?st ?rt (HRef 0) ?w1) = Inr []"
    using canHandleSource_confidence [of ?w1 0 ?fs1 ?st ?rt]
    by (simp add: cell_def wf_heap_def refs_ok_def valid_in_def serialisable_def
        field_of_def own_fields_def)
  have b: "fst (canHandleSource ?hooked ?rt (HRef 0) ?w1) = Inr ''probably''"
  proof -
    have ser: "serialisable (heap ?w1) (HRef 0)"
      by (simp add: serialisable_def cell_def)
    have "cell (heap ?w1) 0 = Some (HObj ?fs1)" "distinct (map fst ?fs1)" "wf_heap (heap ?w1)"
      by (simp_all add: cell_def wf_heap_def refs_ok_def valid_in_def)
    from canHandleSource_confidence [OF this, of ?hooked ?rt, THEN conjunct2, THEN conjunct1] ser
    obtain copy h1 source' h2 where
      j: "json_copy (HRef 0) (heap ?w1) = (Inr copy, h1)"
      and u: "updated ?hooked copy h1 = (source', h2)"
      and r: "fst (canHandleSource ?hooked ?rt (HRef 0) ?w1) =
             (if source' = HUndefined \<or> source' = HNull then Inl TypeError
              else Inr (if truthy_h (field_of h2 source' ''keySystemOptions'') \<and>
                           \<not> (requestMediaKeySystemAccess ?rt \<or> msSetMediaKeys ?rt) then []
                        else if dashTypeRE_test (field_of h2 (HRef 0) ''type'') then ''probably''
                        else if dashExtRE_test (field_of h2 (HRef 0) ''src'') then ''maybe''
                        else []))"
      by blast
    have "json_copy (HRef 0) (heap ?w1) = (Inr (HRef 3), [HObj ?fs1, HArr [], HArr [], HObj [(''src'', HStr ''https://example.com/dash.mpd''),
               (''type'', HStr ''application/dash+xml''), (''keySystemOptions'', HRef 2)]])"
      by (simp add: json_copy_def cell_def)
    then have copy: "copy = HRef 3" "h1 = [HObj ?fs1, HArr [], HArr [], HObj [(''src'', HStr ''https://example.com/dash.mpd''),
               (''type'', HStr ''application/dash+xml''), (''keySystemOptions'', HRef 2)]]"
      using j by simp_all
    have "updated ?hooked copy h1 = (HRef 3, [HObj ?fs1, HArr [], HArr [], HObj [(''src'', HStr ''https://example.com/dash.mpd''),
               (''type'', HStr ''application/dash+xml''), (''keySystemOptions'', HNull)]])"
      by (simp add: copy updated_def hook_def hooks_def add_marker_def set_field_def cell_def)
    then have s: "source' = HRef 3" "h2 = [HObj ?fs1, HArr [], HArr [], HObj [(''src'', HStr ''https://example.com/dash.mpd''),
               (''type'', HStr ''application/dash+xml''), (''keySystemOptions'', HNull)]]"
      using u by simp_all
    show ?thesis
      unfolding r by (simp add: s field_of_def own_fields_def cell_def dashTypeRE_test_def to_lower_def)
  qed
  have c: "fst (canHandleSource ?st ?rt (HRef 0) ?w2) = Inr ''probably''"
    using canHandleSource_confidence [of ?w2 0 ?fs2 ?st ?rt]
    by (simp add: cell_def wf_heap_def refs_ok_def valid_in_def serialisable_def
        field_of_def own_fields_def dashTypeRE_test_def to_lower_def)
  have d: "fst (canHandleSource ?st ?rt (HRef 0) ?w3) = Inl TypeError"
    using canHandleSource_confidence [of ?w3 0 ?fs3 ?st ?rt]
    by (simp add: cell_def wf_heap_def refs_ok_def valid_in_def serialisable_def)
  show ?thesis using a b c d by simp
qed
section \<open>Properties of the caption style overlay\<close>

text \<open>
  The statements that follow an assignment are looked at once the assignment has been
  evaluated.
\<close>

lemma and_then_weak_cong [cong]: "r = r' \<Longrightarrow> and_then r f = and_then r' f"
  by simp



lemma sim_if:
  assumes "c \<Longrightarrow> sim css a1 a0" and "\<not> c \<Longrightarrow> sim css b1 b0"
  shows "sim css (if c then a1 else b1) (if c then a0 else b0)"
  using assms by simp




lemma constructColor_text_decimal:
  "constructColor colour opacity = constructColor_text colour (decimal_to_string opacity)"
  by (simp add: constructColor_def constructColor_text_def)



lemma scaled_permissive [simp]: "scaled (permissive css) = scaled css"
  by (simp add: permissive_def)






























end
